theory Spec2Isabelle
  imports Main "HOL-Library.Sublist"
begin

section \<open>Bytecode vocabulary and runtime values\<close>

text \<open>
  Modelled from the spec: the module \<^verbatim>\<open>rupypy/consts.py\<close>, which holds the opcode
  catalogue, is not part of the sources at hand. Section 6 of the specification lists
  the catalogue; the names are those \<^verbatim>\<open>rupypy/ast.py\<close> uses.
\<close>

datatype opcode =
    LOAD_SELF | LOAD_CONST | LOAD_LOCAL | STORE_LOCAL
  | LOAD_CONSTANT | STORE_CONSTANT
  | LOAD_INSTANCE_VAR | STORE_INSTANCE_VAR
  | JUMP | JUMP_IF_FALSE | DISCARD_TOP
  | SEND | BUILD_ARRAY | BUILD_CLASS | DEFINE_FUNCTION
  | COPY_STRING | RETURN

text \<open>
  An instruction is an opcode together with the operands handed to \<^verbatim>\<open>ctx.emit\<close>,
  in the order of the call.
\<close>

type_synonym instr = "opcode \<times> nat list"

text \<open>
  Modelled from the spec: the object space (\<^verbatim>\<open>ctx.space\<close>) is an external collaborator
  (section 6) and not part of the sources at hand. The values the compiler obtains
  from it are the three singletons, integer, string and symbol literals, and code
  objects wrapping an assembled unit (instructions, constant pool, symbol pool).
\<close>

datatype w_value =
    W_True | W_False | W_Nil
  | W_Int int | W_String string | W_Symbol string
  | W_Code "instr list" "w_value list" "string list"

section \<open>The compilation context\<close>

text \<open>
  Modelled from the spec: the class \<^verbatim>\<open>CompilerContext\<close> of \<^verbatim>\<open>rupypy/bytecode.py\<close> is
  not part of the sources at hand. Sections 3 and 4.2 of the specification give its
  state (instruction sequence, constant pool, symbol pool, local table) and its
  operations; positions are positions in the instruction sequence, a local's slot is
  its position in the table of names, and the constant pool is append-only. The
  specification does not say what \<^verbatim>\<open>patch_jump\<close> does at a position that holds no
  instruction; here it changes nothing, and \<^verbatim>\<open>compile\<close> never asks for it.
\<close>

record compiler_context =
  data :: "instr list"
  const_pool :: "w_value list"
  symbol_pool :: "string list"
  locals :: "string list"

definition new_context :: compiler_context where
  "new_context = \<lparr>data = [], const_pool = [], symbol_pool = [], locals = []\<rparr>"

fun index_of :: "'a \<Rightarrow> 'a list \<Rightarrow> nat option" where
  "index_of x [] = None"
| "index_of x (y # ys) =
     (if x = y then Some 0 else map_option Suc (index_of x ys))"

definition emit :: "opcode \<Rightarrow> nat list \<Rightarrow> compiler_context \<Rightarrow> compiler_context" where
  "emit c args ctx = ctx\<lparr>data := data ctx @ [(c, args)]\<rparr>"

definition get_pos :: "compiler_context \<Rightarrow> nat" where
  "get_pos ctx = length (data ctx)"

definition patch_jump :: "nat \<Rightarrow> compiler_context \<Rightarrow> compiler_context" where
  "patch_jump pos ctx =
     ctx\<lparr>data := (data ctx)[pos := (fst (data ctx ! pos), [length (data ctx)])]\<rparr>"

definition create_local :: "string \<Rightarrow> compiler_context \<Rightarrow> nat \<times> compiler_context" where
  "create_local name ctx =
     (case index_of name (locals ctx) of
        Some slot \<Rightarrow> (slot, ctx)
      | None \<Rightarrow> (length (locals ctx), ctx\<lparr>locals := locals ctx @ [name]\<rparr>))"

definition local_defined :: "string \<Rightarrow> compiler_context \<Rightarrow> bool" where
  "local_defined name ctx = (name \<in> set (locals ctx))"

definition create_const :: "w_value \<Rightarrow> compiler_context \<Rightarrow> nat \<times> compiler_context" where
  "create_const w ctx =
     (length (const_pool ctx), ctx\<lparr>const_pool := const_pool ctx @ [w]\<rparr>)"

definition create_int_const :: "int \<Rightarrow> compiler_context \<Rightarrow> nat \<times> compiler_context" where
  "create_int_const i ctx = create_const (W_Int i) ctx"

definition create_string_const :: "string \<Rightarrow> compiler_context \<Rightarrow> nat \<times> compiler_context" where
  "create_string_const s ctx = create_const (W_String s) ctx"

definition create_symbol_const :: "string \<Rightarrow> compiler_context \<Rightarrow> nat \<times> compiler_context" where
  "create_symbol_const name ctx =
     (case index_of name (symbol_pool ctx) of
        Some i \<Rightarrow> (i, ctx)
      | None \<Rightarrow> (length (symbol_pool ctx), ctx\<lparr>symbol_pool := symbol_pool ctx @ [name]\<rparr>))"

definition create_bytecode :: "compiler_context \<Rightarrow> w_value" where
  "create_bytecode ctx = W_Code (data ctx) (const_pool ctx) (symbol_pool ctx)"

section \<open>The syntax tree\<close>

text \<open>
  One constructor per concrete class of \<^verbatim>\<open>rupypy/ast.py\<close>, with the fields its
  \<^verbatim>\<open>__init__\<close> stores, in that order. A \<^verbatim>\<open>Statement\<close> carries its \<^verbatim>\<open>dont_pop\<close> flag;
  the superclass of a \<^verbatim>\<open>Class\<close> is a node or \<^verbatim>\<open>None\<close>. The classes \<^verbatim>\<open>Node\<close> and
  \<^verbatim>\<open>BaseStatement\<close> are abstract (their \<^verbatim>\<open>compile\<close> raises \<^verbatim>\<open>NotImplementedError\<close>) and
  have no constructor here.
\<close>

datatype node =
    Main node
  | Block "node list"
  | Statement node bool
  | Assignment string node
  | InstanceVariableAssignment string node
  | If node node
  | While node node
  | Class string "node option" node
  | Function string "string list" node
  | Return node
  | BinOp string node node
  | Send node string "node list"
  | Self
  | Variable string
  | InstanceVariable string
  | Array "node list"
  | ConstantInt int
  | ConstantString string

datatype error = IndexError

text \<open>Python's \<^verbatim>\<open>str.isupper\<close> on a single character: an ASCII capital letter.\<close>

definition isupper :: "char \<Rightarrow> bool" where
  "isupper c = (65 \<le> (of_char c :: nat) \<and> (of_char c :: nat) \<le> 90)"

text \<open>
  The measure that makes \<^verbatim>\<open>compile\<close> terminate: \<^verbatim>\<open>BinOp\<close> and \<^verbatim>\<open>Variable\<close> build a
  \<^verbatim>\<open>Send\<close> node and compile it, so they weigh more than the node they build.
\<close>

fun weight :: "node \<Rightarrow> nat" where
  "weight (Main b) = Suc (weight b)"
| "weight (Block stmts) = Suc (sum_list (map (\<lambda>s. Suc (weight s)) stmts))"
| "weight (Statement e d) = Suc (weight e)"
| "weight (Assignment t v) = Suc (weight v)"
| "weight (InstanceVariableAssignment n v) = Suc (weight v)"
| "weight (If c b) = Suc (weight c + weight b)"
| "weight (While c b) = Suc (weight c + weight b)"
| "weight (Class n s b) = Suc (weight b)"
| "weight (Function n as b) = Suc (weight b)"
| "weight (Return e) = Suc (weight e)"
| "weight (BinOp op l r) = weight l + weight r + 4"
| "weight (Send r m as) = Suc (weight r + sum_list (map (\<lambda>a. Suc (weight a)) as))"
| "weight Self = 0"
| "weight (Variable n) = 2"
| "weight (InstanceVariable n) = 0"
| "weight (Array items) = Suc (sum_list (map (\<lambda>s. Suc (weight s)) items))"
| "weight (ConstantInt i) = 0"
| "weight (ConstantString s) = 0"

section \<open>Compilation\<close>

text \<open>
  \<^verbatim>\<open>compile\<close> follows the \<^verbatim>\<open>compile\<close> method of each class; the context is passed in
  and returned updated, and the \<^verbatim>\<open>IndexError\<close> of \<^verbatim>\<open>name[0]\<close> on an empty name is a
  result. \<^verbatim>\<open>compile_each\<close> is the loop \<^verbatim>\<open>for x in xs: x.compile(ctx)\<close> of \<^verbatim>\<open>Block\<close> and
  \<^verbatim>\<open>Array\<close>; \<^verbatim>\<open>compile_downto\<close> is the loop of \<^verbatim>\<open>Send\<close>,
  \<^verbatim>\<open>for i in range(len(args) - 1, -1, -1): args[i].compile(ctx)\<close>,
  which compiles the last element of the list first.
\<close>

function (sequential)
  compile :: "node \<Rightarrow> compiler_context \<Rightarrow> error + compiler_context" and
  compile_each :: "node list \<Rightarrow> compiler_context \<Rightarrow> error + compiler_context" and
  compile_downto :: "node list \<Rightarrow> compiler_context \<Rightarrow> error + compiler_context"
where
  "compile (Main block) ctx =
     (case compile block ctx of
        Inl e \<Rightarrow> Inl e
      | Inr c1 \<Rightarrow>
          (let c2 = emit DISCARD_TOP [] c1;
               (k, c3) = create_const W_True c2;
               c4 = emit LOAD_CONST [k] c3
           in Inr (emit RETURN [] c4)))"
| "compile (Block stmts) ctx = compile_each stmts ctx"
| "compile (Statement expr dont_pop) ctx =
     (case compile expr ctx of
        Inl e \<Rightarrow> Inl e
      | Inr c1 \<Rightarrow> if \<not> dont_pop then Inr (emit DISCARD_TOP [] c1) else Inr c1)"
| "compile (Assignment target v) ctx =
     (case target of
        [] \<Rightarrow> Inl IndexError
      | ch # _ \<Rightarrow>
          if isupper ch then
            (case compile v ctx of
               Inl e \<Rightarrow> Inl e
             | Inr c1 \<Rightarrow>
                 (let (i, c2) = create_symbol_const target c1
                  in Inr (emit STORE_CONSTANT [i] c2)))
          else
            (let (loc, c1) = create_local target ctx
             in case compile v c1 of
                  Inl e \<Rightarrow> Inl e
                | Inr c2 \<Rightarrow> Inr (emit STORE_LOCAL [loc] c2)))"
| "compile (InstanceVariableAssignment name v) ctx =
     (case compile v ctx of
        Inl e \<Rightarrow> Inl e
      | Inr c1 \<Rightarrow>
          (let c2 = emit LOAD_SELF [] c1;
               (i, c3) = create_symbol_const name c2
           in Inr (emit STORE_INSTANCE_VAR [i] c3)))"
| "compile (If cond body) ctx =
     (case compile cond ctx of
        Inl e \<Rightarrow> Inl e
      | Inr c1 \<Rightarrow>
          (let pos = get_pos c1;
               c2 = emit JUMP_IF_FALSE [0] c1
           in case compile body c2 of
                Inl e \<Rightarrow> Inl e
              | Inr c3 \<Rightarrow>
                  (let else_pos = get_pos c3;
                       c4 = emit JUMP [0] c3;
                       c5 = patch_jump pos c4;
                       (k, c6) = create_const W_Nil c5;
                       c7 = emit LOAD_CONST [k] c6
                   in Inr (patch_jump else_pos c7))))"
| "compile (While cond body) ctx =
     (let start_pos = get_pos ctx
      in case compile cond ctx of
           Inl e \<Rightarrow> Inl e
         | Inr c1 \<Rightarrow>
             (let jump_pos = get_pos c1;
                  c2 = emit JUMP_IF_FALSE [0] c1
              in case compile body c2 of
                   Inl e \<Rightarrow> Inl e
                 | Inr c3 \<Rightarrow>
                     (let c4 = emit DISCARD_TOP [] c3;
                          c5 = emit JUMP [start_pos] c4;
                          c6 = patch_jump jump_pos c5;
                          (k, c7) = create_const W_Nil c6
                      in Inr (emit LOAD_CONST [k] c7))))"
| "compile (Class name superclass body) ctx =
     (let c1 = emit LOAD_SELF [] ctx;
          (i, c2) = create_symbol_const name c1;
          c3 = emit LOAD_CONST [i] c2;
          (k, c4) = create_const W_Nil c3;
          c5 = emit LOAD_CONST [k] c4;
          body_ctx = new_context
      in case compile body body_ctx of
           Inl e \<Rightarrow> Inl e
         | Inr b1 \<Rightarrow>
             (let b2 = emit DISCARD_TOP [] b1;
                  (kn, b3) = create_const W_Nil b2;
                  b4 = emit LOAD_CONST [kn] b3;
                  b5 = emit RETURN [] b4;
                  bytecode = create_bytecode b5;
                  (kc, c6) = create_const bytecode c5;
                  c7 = emit LOAD_CONST [kc] c6
              in Inr (emit BUILD_CLASS [] c7)))"
| "compile (Function name args body) ctx =
     (let function_ctx = fold (\<lambda>name c. snd (create_local name c)) args new_context
      in case compile body function_ctx of
           Inl e \<Rightarrow> Inl e
         | Inr f1 \<Rightarrow>
             (let f2 = emit RETURN [] f1;
                  bytecode = create_bytecode f2;
                  c1 = emit LOAD_SELF [] ctx;
                  (i, c2) = create_symbol_const name c1;
                  c3 = emit LOAD_CONST [i] c2;
                  (kc, c4) = create_const bytecode c3;
                  c5 = emit LOAD_CONST [kc] c4
              in Inr (emit DEFINE_FUNCTION [] c5)))"
| "compile (Return expr) ctx =
     (case compile expr ctx of
        Inl e \<Rightarrow> Inl e
      | Inr c1 \<Rightarrow> Inr (emit RETURN [] c1))"
| "compile (BinOp op left right) ctx = compile (Send left op [right]) ctx"
| "compile (Send receiver method args) ctx =
     (case compile receiver ctx of
        Inl e \<Rightarrow> Inl e
      | Inr c1 \<Rightarrow>
          (case compile_downto args c1 of
             Inl e \<Rightarrow> Inl e
           | Inr c2 \<Rightarrow>
               (let (i, c3) = create_symbol_const method c2
                in Inr (emit SEND [i, length args] c3))))"
| "compile Self ctx = Inr (emit LOAD_SELF [] ctx)"
| "compile (Variable name) ctx =
     (if name = ''true'' \<or> name = ''false'' \<or> name = ''nil'' then
        (let (k, c1) = create_const
               (if name = ''true'' then W_True
                else if name = ''false'' then W_False else W_Nil) ctx
         in Inr (emit LOAD_CONST [k] c1))
      else if name = ''self'' then Inr (emit LOAD_SELF [] ctx)
      else if local_defined name ctx then
        (let (slot, c1) = create_local name ctx
         in Inr (emit LOAD_LOCAL [slot] c1))
      else
        (case name of
           [] \<Rightarrow> Inl IndexError
         | ch # _ \<Rightarrow>
             if isupper ch then
               (let (i, c1) = create_symbol_const name ctx
                in Inr (emit LOAD_CONSTANT [i] c1))
             else compile (Send Self name []) ctx))"
| "compile (InstanceVariable name) ctx =
     (let c1 = emit LOAD_SELF [] ctx;
          (i, c2) = create_symbol_const name c1
      in Inr (emit LOAD_INSTANCE_VAR [i] c2))"
| "compile (Array items) ctx =
     (case compile_each items ctx of
        Inl e \<Rightarrow> Inl e
      | Inr c1 \<Rightarrow> Inr (emit BUILD_ARRAY [length items] c1))"
| "compile (ConstantInt intvalue) ctx =
     (let (k, c1) = create_int_const intvalue ctx
      in Inr (emit LOAD_CONST [k] c1))"
| "compile (ConstantString strvalue) ctx =
     (let (k, c1) = create_string_const strvalue ctx;
          c2 = emit LOAD_CONST [k] c1
      in Inr (emit COPY_STRING [] c2))"
| "compile_each [] ctx = Inr ctx"
| "compile_each (x # xs) ctx =
     (case compile x ctx of
        Inl e \<Rightarrow> Inl e
      | Inr c1 \<Rightarrow> compile_each xs c1)"
| "compile_downto [] ctx = Inr ctx"
| "compile_downto (x # xs) ctx =
     (case compile_downto xs ctx of
        Inl e \<Rightarrow> Inl e
      | Inr c1 \<Rightarrow> compile x c1)"
  by pat_completeness auto
termination
  by (relation "measure (\<lambda>x. case x of
          Inl (n, c) \<Rightarrow> weight n
        | Inr (Inl (ns, c)) \<Rightarrow> sum_list (map (\<lambda>s. Suc (weight s)) ns)
        | Inr (Inr (ns, c)) \<Rightarrow> sum_list (map (\<lambda>s. Suc (weight s)) ns))") auto

text \<open>
  Auxiliary notions used to state results: one context extends another when each
  of its four sequences has the other's as a prefix; the code a compilation emits is
  what it adds to the instruction sequence; \<^verbatim>\<open>class_body_code\<close> and \<^verbatim>\<open>declare_params\<close>
  name the nested unit that \<^verbatim>\<open>Class.compile\<close> assembles and the context in which
  \<^verbatim>\<open>Function.compile\<close> compiles a body.
\<close>

definition extends :: "compiler_context \<Rightarrow> compiler_context \<Rightarrow> bool" where
  "extends c c' \<longleftrightarrow>
     prefix (data c) (data c') \<and> prefix (const_pool c) (const_pool c')
     \<and> prefix (symbol_pool c) (symbol_pool c') \<and> prefix (locals c) (locals c')"

definition class_body_code :: "compiler_context \<Rightarrow> w_value" where
  "class_body_code b1 = create_bytecode (emit RETURN [] (emit LOAD_CONST [length (const_pool b1)]
       (snd (create_const W_Nil (emit DISCARD_TOP [] b1)))))"

definition declare_params :: "string list \<Rightarrow> compiler_context" where
  "declare_params args = fold (\<lambda>name c. snd (create_local name c)) args new_context"

definition emitted :: "compiler_context \<Rightarrow> compiler_context \<Rightarrow> instr list" where
  "emitted c c' = drop (length (data c)) (data c')"

text \<open>
  The precondition under which \<^verbatim>\<open>compile\<close> never indexes an empty name: the name of
  every \<^verbatim>\<open>Variable\<close> and the target of every \<^verbatim>\<open>Assignment\<close> that is compiled is non-empty.
  (The superclass of a \<^verbatim>\<open>Class\<close> is never compiled.)
\<close>

fun names_nonempty :: "node \<Rightarrow> bool" where
  "names_nonempty (Main b) = names_nonempty b"
| "names_nonempty (Block stmts) = (\<forall>s \<in> set stmts. names_nonempty s)"
| "names_nonempty (Statement e d) = names_nonempty e"
| "names_nonempty (Assignment t v) = (t \<noteq> [] \<and> names_nonempty v)"
| "names_nonempty (InstanceVariableAssignment n v) = names_nonempty v"
| "names_nonempty (If c b) = (names_nonempty c \<and> names_nonempty b)"
| "names_nonempty (While c b) = (names_nonempty c \<and> names_nonempty b)"
| "names_nonempty (Class n s b) = names_nonempty b"
| "names_nonempty (Function n as b) = names_nonempty b"
| "names_nonempty (Return e) = names_nonempty e"
| "names_nonempty (BinOp op l r) = (names_nonempty l \<and> names_nonempty r)"
| "names_nonempty (Send r m as) = (names_nonempty r \<and> (\<forall>a \<in> set as. names_nonempty a))"
| "names_nonempty Self = True"
| "names_nonempty (Variable n) = (n \<noteq> [])"
| "names_nonempty (InstanceVariable n) = True"
| "names_nonempty (Array items) = (\<forall>x \<in> set items. names_nonempty x)"
| "names_nonempty (ConstantInt i) = True"
| "names_nonempty (ConstantString s) = True"

text \<open>
  Operand counts: \<^verbatim>\<open>SEND\<close> carries two operands, every other opcode at most one. A
  context is well-formed when this holds of its instructions and, recursively, of
  the code objects in its constant pool.
\<close>

definition operand_ok :: "instr \<Rightarrow> bool" where
  "operand_ok ins = (if fst ins = SEND then length (snd ins) = 2 else length (snd ins) \<le> 1)"

fun code_ok :: "w_value \<Rightarrow> bool" where
  "code_ok (W_Code ins cs syms) = (list_all operand_ok ins \<and> list_all code_ok cs)"
| "code_ok _ = True"

definition context_ok :: "compiler_context \<Rightarrow> bool" where
  "context_ok ctx = (list_all operand_ok (data ctx) \<and> list_all code_ok (const_pool ctx))"

section \<open>The stack machine\<close>

text \<open>
  Modelled from the spec: the interpreter that runs the bytecode is not part of the
  sources at hand; the specification treats it as an external collaborator and gives,
  per construct, what each instruction consumes and leaves (sections 4.1 and 6).
  The model keeps the program counter and the evaluation stack only. \<^verbatim>\<open>JUMP\<close>,
  \<^verbatim>\<open>JUMP_IF_FALSE\<close>, \<^verbatim>\<open>LOAD_CONST\<close>, \<^verbatim>\<open>DISCARD_TOP\<close> and the three stores are exact; every
  other instruction pops and pushes the number of values given by \<open>stack_use\<close> and the
  values pushed are left open; \<^verbatim>\<open>RETURN\<close> leaves the frame, so it has no successor
  frame: a run ends there, and \<open>finishes\<close> below records what it hands over.
  A \<^verbatim>\<open>LOAD_CONST\<close> pushes the pool entry of its operand when the operand is an index of
  the constant pool. Truth is Ruby's: everything but \<^verbatim>\<open>false\<close> and \<^verbatim>\<open>nil\<close>.
\<close>

definition is_true :: "w_value \<Rightarrow> bool" where
  "is_true v = (v \<noteq> W_False \<and> v \<noteq> W_Nil)"

fun stack_use :: "instr \<Rightarrow> (nat \<times> nat) option" where
  "stack_use (LOAD_SELF, []) = Some (0, 1)"
| "stack_use (LOAD_CONST, [k]) = Some (0, 1)"
| "stack_use (LOAD_LOCAL, [i]) = Some (0, 1)"
| "stack_use (STORE_LOCAL, [i]) = Some (1, 1)"
| "stack_use (LOAD_CONSTANT, [i]) = Some (0, 1)"
| "stack_use (STORE_CONSTANT, [i]) = Some (1, 1)"
| "stack_use (LOAD_INSTANCE_VAR, [i]) = Some (1, 1)"
| "stack_use (STORE_INSTANCE_VAR, [i]) = Some (2, 1)"
| "stack_use (DISCARD_TOP, []) = Some (1, 0)"
| "stack_use (SEND, [i, n]) = Some (Suc n, 1)"
| "stack_use (BUILD_ARRAY, [n]) = Some (n, 1)"
| "stack_use (BUILD_CLASS, []) = Some (4, 1)"
| "stack_use (DEFINE_FUNCTION, []) = Some (3, 1)"
| "stack_use (COPY_STRING, []) = Some (1, 1)"
| "stack_use _ = None"

type_synonym frame = "nat \<times> w_value list"

fun exec :: "instr \<Rightarrow> w_value list \<Rightarrow> frame \<Rightarrow> frame \<Rightarrow> bool" where
  "exec (JUMP, [t]) cs (pc, st) (pc', st') = (pc' = t \<and> st' = st)"
| "exec (JUMP_IF_FALSE, [t]) cs (pc, st) (pc', st') =
     (st \<noteq> [] \<and> st' = tl st \<and> pc' = (if is_true (hd st) then Suc pc else t))"
| "exec (LOAD_CONST, [k]) cs (pc, st) (pc', st') =
     (pc' = Suc pc \<and> st' \<noteq> [] \<and> tl st' = st \<and> (k < length cs \<longrightarrow> hd st' = cs ! k))"
| "exec (STORE_LOCAL, [i]) cs (pc, st) (pc', st') = (pc' = Suc pc \<and> st \<noteq> [] \<and> st' = st)"
| "exec (STORE_CONSTANT, [i]) cs (pc, st) (pc', st') = (pc' = Suc pc \<and> st \<noteq> [] \<and> st' = st)"
| "exec (STORE_INSTANCE_VAR, [i]) cs (pc, st) (pc', st') =
     (pc' = Suc pc \<and> 2 \<le> length st \<and> st' = tl st)"
| "exec ins cs (pc, st) (pc', st') =
     (case stack_use ins of
        None \<Rightarrow> False
      | Some (p, q) \<Rightarrow>
          pc' = Suc pc \<and> p \<le> length st \<and> length st' = length st - p + q
          \<and> drop q st' = drop p st)"

text \<open>One step of the machine on program \<open>P\<close> with constant pool \<open>cs\<close>.\<close>

definition vm_step :: "instr list \<Rightarrow> w_value list \<Rightarrow> frame \<Rightarrow> frame \<Rightarrow> bool" where
  "vm_step P cs s s' = (fst s < length P \<and> exec (P ! fst s) cs s s')"

text \<open>
  \<open>leaves P cs lo hi n s r\<close>: started in frame \<open>s\<close>, the machine takes \<open>n\<close> steps at
  positions within \<open>[lo, hi)\<close> and then stands in frame \<open>r\<close> at a position outside it.
  \<open>code_at P lo seg\<close>: the program holds the instructions \<open>seg\<close> from position \<open>lo\<close> on.
\<close>

inductive leaves :: "instr list \<Rightarrow> w_value list \<Rightarrow> nat \<Rightarrow> nat \<Rightarrow> nat \<Rightarrow> frame \<Rightarrow> frame \<Rightarrow> bool"
  for P cs lo hi where
  outside: "\<not> (lo \<le> pc \<and> pc < hi) \<Longrightarrow> leaves P cs lo hi 0 (pc, st) (pc, st)"
| inside: "lo \<le> pc \<Longrightarrow> pc < hi \<Longrightarrow> vm_step P cs (pc, st) s' \<Longrightarrow> leaves P cs lo hi n s' r
     \<Longrightarrow> leaves P cs lo hi (Suc n) (pc, st) r"

text \<open>
  Modelled from the spec: a \<^verbatim>\<open>RETURN\<close> is unconditional and unwinds to the caller
  (section 4.1); it takes the value on top of the stack and hands it over, and the run
  of the frame is over. \<open>finishes P cs lo hi n s r\<close>: started in frame \<open>s\<close>, the run
  through the positions \<open>[lo, hi)\<close> is over after \<open>n\<close> steps, with outcome \<open>r\<close>: either the
  machine stands outside the segment (\<open>Outside\<close>, as for \<open>leaves\<close>), or it has executed a
  \<^verbatim>\<open>RETURN\<close> of the segment (\<open>Returned v st\<close>: the value handed over and the stack left
  behind).

  \<open>effect P cs lo hi p q F R\<close>: every run from position \<open>lo\<close> is over in one of two ways.
  It falls off the end: it stands at position \<open>hi\<close>, with the top \<open>p\<close> values of the
  initial stack replaced by \<open>q\<close> values and the rest of the stack as it was; this needs
  \<open>F\<close>. Or it returns, with the rest of the initial stack still in place under what is
  left behind; this needs \<open>R\<close>.
\<close>

datatype outcome = Outside frame | Returned w_value "w_value list"

inductive finishes :: "instr list \<Rightarrow> w_value list \<Rightarrow> nat \<Rightarrow> nat \<Rightarrow> nat \<Rightarrow> frame \<Rightarrow> outcome \<Rightarrow> bool"
  for P cs lo hi where
  out: "\<not> (lo \<le> pc \<and> pc < hi) \<Longrightarrow> finishes P cs lo hi 0 (pc, st) (Outside (pc, st))"
| step: "lo \<le> pc \<Longrightarrow> pc < hi \<Longrightarrow> vm_step P cs (pc, st) s' \<Longrightarrow> finishes P cs lo hi n s' r
     \<Longrightarrow> finishes P cs lo hi (Suc n) (pc, st) r"
| ret: "lo \<le> pc \<Longrightarrow> pc < hi \<Longrightarrow> pc < length P \<Longrightarrow> P ! pc = (RETURN, [])
     \<Longrightarrow> finishes P cs lo hi (Suc 0) (pc, v # st) (Returned v st)"

definition effect ::
  "instr list \<Rightarrow> w_value list \<Rightarrow> nat \<Rightarrow> nat \<Rightarrow> nat \<Rightarrow> nat \<Rightarrow> bool \<Rightarrow> bool \<Rightarrow> bool" where
  "effect P cs lo hi p q F R \<longleftrightarrow>
     (\<forall>n ws st r. length ws = p \<longrightarrow> finishes P cs lo hi n (lo, ws @ st) r \<longrightarrow>
        (F \<and> (\<exists>vs. length vs = q \<and> r = Outside (hi, vs @ st)))
      \<or> (R \<and> (\<exists>v us. r = Returned v (us @ st))))"

definition code_at :: "instr list \<Rightarrow> nat \<Rightarrow> instr list \<Rightarrow> bool" where
  "code_at P lo seg \<longleftrightarrow> (\<forall>i < length seg. lo + i < length P \<and> P ! (lo + i) = seg ! i)"


text \<open>
  The number of values a node's code leaves on the stack, and the trees in which every
  operand position (a condition, a body, a receiver, an argument, an element, an assigned
  or returned value, the expression of a statement, the block of \<^verbatim>\<open>Main\<close>) holds a node
  that leaves one value and every statement of a block but the last leaves none. The
  bodies of \<^verbatim>\<open>Class\<close> and \<^verbatim>\<open>Function\<close> are compiled into units of their own and are not
  constrained.
\<close>

fun net :: "node \<Rightarrow> nat" where
  "net (Statement e dont_pop) = (if dont_pop then 1 else 0)"
| "net (Block stmts) = sum_list (map net stmts)"
| "net _ = 1"

fun balanced :: "node \<Rightarrow> bool" where
  "balanced (Main b) = (balanced b \<and> net b = 1)"
| "balanced (Block stmts) =
     ((\<forall>s \<in> set stmts. balanced s) \<and> (\<forall>s \<in> set (butlast stmts). net s = 0))"
| "balanced (Statement e d) = (balanced e \<and> net e = 1)"
| "balanced (Assignment t v) = (balanced v \<and> net v = 1)"
| "balanced (InstanceVariableAssignment n v) = (balanced v \<and> net v = 1)"
| "balanced (If c b) = (balanced c \<and> net c = 1 \<and> balanced b \<and> net b = 1)"
| "balanced (While c b) = (balanced c \<and> net c = 1 \<and> balanced b \<and> net b = 1)"
| "balanced (Class n s b) = True"
| "balanced (Function n as b) = True"
| "balanced (Return e) = (balanced e \<and> net e = 1)"
| "balanced (BinOp op l r) = (balanced l \<and> net l = 1 \<and> balanced r \<and> net r = 1)"
| "balanced (Send r m as) =
     (balanced r \<and> net r = 1 \<and> (\<forall>a \<in> set as. balanced a \<and> net a = 1))"
| "balanced Self = True"
| "balanced (Variable n) = True"
| "balanced (InstanceVariable n) = True"
| "balanced (Array items) = (\<forall>x \<in> set items. balanced x \<and> net x = 1)"
| "balanced (ConstantInt i) = True"
| "balanced (ConstantString s) = True"

text \<open>
  Whether a run through a node's code can fall off its end, and whether it can end in a
  \<^verbatim>\<open>RETURN\<close> of that code. The code of \<^verbatim>\<open>Return\<close> and of \<^verbatim>\<open>Main\<close> ends in a \<^verbatim>\<open>RETURN\<close>; code
  in sequence falls off its end only if every part does; a conditional or a loop can
  fall off its end, through the nil load, whenever its condition can; the bodies of
  \<^verbatim>\<open>Class\<close> and \<^verbatim>\<open>Function\<close> are in units of their own.
\<close>

fun may_fall :: "node \<Rightarrow> bool" where
  "may_fall (Main b) = False"
| "may_fall (Block stmts) = (\<forall>s \<in> set stmts. may_fall s)"
| "may_fall (Statement e d) = may_fall e"
| "may_fall (Assignment t v) = may_fall v"
| "may_fall (InstanceVariableAssignment n v) = may_fall v"
| "may_fall (If c b) = may_fall c"
| "may_fall (While c b) = may_fall c"
| "may_fall (Class n s b) = True"
| "may_fall (Function n as b) = True"
| "may_fall (Return e) = False"
| "may_fall (BinOp op l r) = (may_fall l \<and> may_fall r)"
| "may_fall (Send r m as) = (may_fall r \<and> (\<forall>a \<in> set as. may_fall a))"
| "may_fall Self = True"
| "may_fall (Variable n) = True"
| "may_fall (InstanceVariable n) = True"
| "may_fall (Array items) = (\<forall>x \<in> set items. may_fall x)"
| "may_fall (ConstantInt i) = True"
| "may_fall (ConstantString s) = True"

fun may_return :: "node \<Rightarrow> bool" where
  "may_return (Main b) = True"
| "may_return (Block stmts) = (\<exists>s \<in> set stmts. may_return s)"
| "may_return (Statement e d) = may_return e"
| "may_return (Assignment t v) = may_return v"
| "may_return (InstanceVariableAssignment n v) = may_return v"
| "may_return (If c b) = (may_return c \<or> may_return b)"
| "may_return (While c b) = (may_return c \<or> may_return b)"
| "may_return (Class n s b) = False"
| "may_return (Function n as b) = False"
| "may_return (Return e) = True"
| "may_return (BinOp op l r) = (may_return l \<or> may_return r)"
| "may_return (Send r m as) = (may_return r \<or> (\<exists>a \<in> set as. may_return a))"
| "may_return Self = False"
| "may_return (Variable n) = False"
| "may_return (InstanceVariable n) = False"
| "may_return (Array items) = (\<exists>x \<in> set items. may_return x)"
| "may_return (ConstantInt i) = False"
| "may_return (ConstantString s) = False"

text \<open>The stack depth after a run of plain instructions, if none of them underflows.\<close>

fun depth_after :: "instr list \<Rightarrow> nat \<Rightarrow> nat option" where
  "depth_after [] d = Some d"
| "depth_after (i # is) d =
     (case stack_use i of
        None \<Rightarrow> None
      | Some (p, q) \<Rightarrow> if p \<le> d then depth_after is (d - p + q) else None)"

text \<open>
  Three concrete trees, with the contexts their compilation in an empty context yields:
  a block of two statements whose second is a conditional, that conditional alone, and
  a loop whose condition is a method call; the context that the compilation of
  \<^verbatim>\<open>Return(ConstantInt(1))\<close> yields; and a \<^verbatim>\<open>Main\<close> over a block of one statement.
\<close>

definition example_block :: node where
  "example_block = Block [Statement (ConstantInt 1) False,
       Statement (If (Variable ''true'') (Block [Statement (ConstantInt 2) True])) True]"

definition example_block_ctx :: compiler_context where
  "example_block_ctx =
     \<lparr>data = [(LOAD_CONST, [0]), (DISCARD_TOP, []), (LOAD_CONST, [1]), (JUMP_IF_FALSE, [6]),
              (LOAD_CONST, [2]), (JUMP, [7]), (LOAD_CONST, [3])],
      const_pool = [W_Int 1, W_True, W_Int 2, W_Nil], symbol_pool = [], locals = []\<rparr>"

definition example_if :: node where
  "example_if = If (Variable ''true'') (Block [Statement (ConstantInt 2) True])"

definition example_if_ctx :: compiler_context where
  "example_if_ctx =
     \<lparr>data = [(LOAD_CONST, [0]), (JUMP_IF_FALSE, [4]), (LOAD_CONST, [1]), (JUMP, [5]),
              (LOAD_CONST, [2])],
      const_pool = [W_True, W_Int 2, W_Nil], symbol_pool = [], locals = []\<rparr>"

definition example_while :: node where
  "example_while = While (Variable ''x'') (ConstantInt 1)"

definition example_while_ctx :: compiler_context where
  "example_while_ctx =
     \<lparr>data = [(LOAD_SELF, []), (SEND, [0, 0]), (JUMP_IF_FALSE, [6]), (LOAD_CONST, [0]),
              (DISCARD_TOP, []), (JUMP, [0]), (LOAD_CONST, [1])],
      const_pool = [W_Int 1, W_Nil], symbol_pool = [''x''], locals = []\<rparr>"

definition example_return_ctx :: compiler_context where
  "example_return_ctx =
     \<lparr>data = [(LOAD_CONST, [0]), (RETURN, [])],
      const_pool = [W_Int 1], symbol_pool = [], locals = []\<rparr>"

definition example_main :: node where
  "example_main = Main (Block [Statement (ConstantInt 1) True])"

definition example_main_ctx :: compiler_context where
  "example_main_ctx =
     \<lparr>data = [(LOAD_CONST, [0]), (DISCARD_TOP, []), (LOAD_CONST, [1]), (RETURN, [])],
      const_pool = [W_Int 1, W_True], symbol_pool = [], locals = []\<rparr>"

section \<open>Equality of nodes\<close>

text \<open>
  \<^verbatim>\<open>Node.__eq__\<close>: the result is \<^verbatim>\<open>NotImplemented\<close> when the other object is not a
  \<^verbatim>\<open>Node\<close>; otherwise it is \<^verbatim>\<open>type(self) is type(other) and self.__dict__ == other.__dict__\<close>.
  The comparison sees every attribute of the two objects, and \<^verbatim>\<open>Block.__init__\<close> sets the
  attribute \<^verbatim>\<open>dont_pop\<close> on whatever node is the last of its statements, a \<^verbatim>\<open>Statement\<close> or
  not. So a node is taken here as the object it is: its class, the fields that its
  \<^verbatim>\<open>__init__\<close> stores and, for every class but \<^verbatim>\<open>Statement\<close> (whose \<^verbatim>\<open>__init__\<close> stores
  \<^verbatim>\<open>dont_pop\<close> itself), the attribute \<^verbatim>\<open>dont_pop\<close> if it has been set: \<open>None\<close> when the
  object has no such attribute, \<open>Some b\<close> when it has it with value \<open>b\<close>. (\<^verbatim>\<open>compile\<close> reads
  the attribute of a \<^verbatim>\<open>Statement\<close> only, which is why the trees that are compiled do not
  record it elsewhere.) The classes \<^verbatim>\<open>Node\<close> and \<^verbatim>\<open>BaseStatement\<close> have no \<^verbatim>\<open>__init__\<close> of
  their own; their instances have no other attribute.

  The class of a node object is its constructor, and \<open>fields\<close> is its \<^verbatim>\<open>__dict__\<close>, the
  entries in the order in which they are stored; two objects of one class store theirs
  in the same order, so the two lists are equal exactly when the two dictionaries are.
  \<open>node_eq\<close> follows the evaluation: the case on the other node is the test of the
  types, and the dictionaries are compared entry by entry, an entry holding a node by
  \<open>node_eq\<close> again, a list of nodes element by element, the superclass (a node or
  \<^verbatim>\<open>None\<close>) as an option, strings, integers and booleans by value, and the attribute
  \<^verbatim>\<open>dont_pop\<close> by its presence and its value.
\<close>

datatype node_class =
    NodeC | BaseStatementC
  | MainC | BlockC | StatementC | AssignmentC | InstanceVariableAssignmentC | IfC | WhileC
  | ClassC | FunctionC | ReturnC | BinOpC | SendC | SelfC | VariableC | InstanceVariableC
  | ArrayC | ConstantIntC | ConstantStringC

datatype node_object =
    NodeO "bool option"
  | BaseStatementO "bool option"
  | MainO node_object "bool option"
  | BlockO "node_object list" "bool option"
  | StatementO node_object bool
  | AssignmentO string node_object "bool option"
  | InstanceVariableAssignmentO string node_object "bool option"
  | IfO node_object node_object "bool option"
  | WhileO node_object node_object "bool option"
  | ClassO string "node_object option" node_object "bool option"
  | FunctionO string "string list" node_object "bool option"
  | ReturnO node_object "bool option"
  | BinOpO string node_object node_object "bool option"
  | SendO node_object string "node_object list" "bool option"
  | SelfO "bool option"
  | VariableO string "bool option"
  | InstanceVariableO string "bool option"
  | ArrayO "node_object list" "bool option"
  | ConstantIntO int "bool option"
  | ConstantStringO string "bool option"

fun type_of :: "node_object \<Rightarrow> node_class" where
  "type_of (NodeO x) = NodeC"
| "type_of (BaseStatementO x) = BaseStatementC"
| "type_of (MainO b x) = MainC"
| "type_of (BlockO ss x) = BlockC"
| "type_of (StatementO e d) = StatementC"
| "type_of (AssignmentO t v x) = AssignmentC"
| "type_of (InstanceVariableAssignmentO n v x) = InstanceVariableAssignmentC"
| "type_of (IfO c b x) = IfC"
| "type_of (WhileO c b x) = WhileC"
| "type_of (ClassO n s b x) = ClassC"
| "type_of (FunctionO n as b x) = FunctionC"
| "type_of (ReturnO e x) = ReturnC"
| "type_of (BinOpO op l r x) = BinOpC"
| "type_of (SendO r m as x) = SendC"
| "type_of (SelfO x) = SelfC"
| "type_of (VariableO n x) = VariableC"
| "type_of (InstanceVariableO n x) = InstanceVariableC"
| "type_of (ArrayO xs x) = ArrayC"
| "type_of (ConstantIntO i x) = ConstantIntC"
| "type_of (ConstantStringO s x) = ConstantStringC"

datatype field =
    NodeF node_object | NodesF "node_object list" | OptionF "node_object option"
  | StrF string | StrsF "string list" | IntF int | BoolF bool

text \<open>The entry of the attribute \<^verbatim>\<open>dont_pop\<close>, which comes last in the dictionary.\<close>

fun dont_pop_entry :: "bool option \<Rightarrow> (string \<times> field) list" where
  "dont_pop_entry None = []"
| "dont_pop_entry (Some b) = [(''dont_pop'', BoolF b)]"

fun fields :: "node_object \<Rightarrow> (string \<times> field) list" where
  "fields (NodeO x) = dont_pop_entry x"
| "fields (BaseStatementO x) = dont_pop_entry x"
| "fields (MainO b x) = [(''block'', NodeF b)] @ dont_pop_entry x"
| "fields (BlockO ss x) = [(''stmts'', NodesF ss)] @ dont_pop_entry x"
| "fields (StatementO e d) = [(''expr'', NodeF e), (''dont_pop'', BoolF d)]"
| "fields (AssignmentO t v x) = [(''target'', StrF t), (''value'', NodeF v)] @ dont_pop_entry x"
| "fields (InstanceVariableAssignmentO n v x) =
     [(''name'', StrF n), (''value'', NodeF v)] @ dont_pop_entry x"
| "fields (IfO c b x) = [(''cond'', NodeF c), (''body'', NodeF b)] @ dont_pop_entry x"
| "fields (WhileO c b x) = [(''cond'', NodeF c), (''body'', NodeF b)] @ dont_pop_entry x"
| "fields (ClassO n s b x) =
     [(''name'', StrF n), (''superclass'', OptionF s), (''body'', NodeF b)] @ dont_pop_entry x"
| "fields (FunctionO n as b x) =
     [(''name'', StrF n), (''args'', StrsF as), (''body'', NodeF b)] @ dont_pop_entry x"
| "fields (ReturnO e x) = [(''expr'', NodeF e)] @ dont_pop_entry x"
| "fields (BinOpO op l r x) =
     [(''op'', StrF op), (''left'', NodeF l), (''right'', NodeF r)] @ dont_pop_entry x"
| "fields (SendO r m as x) =
     [(''receiver'', NodeF r), (''method'', StrF m), (''args'', NodesF as)] @ dont_pop_entry x"
| "fields (SelfO x) = dont_pop_entry x"
| "fields (VariableO n x) = [(''name'', StrF n)] @ dont_pop_entry x"
| "fields (InstanceVariableO n x) = [(''name'', StrF n)] @ dont_pop_entry x"
| "fields (ArrayO xs x) = [(''items'', NodesF xs)] @ dont_pop_entry x"
| "fields (ConstantIntO i x) = [(''intvalue'', IntF i)] @ dont_pop_entry x"
| "fields (ConstantStringO s x) = [(''strvalue'', StrF s)] @ dont_pop_entry x"

fun node_eq :: "node_object \<Rightarrow> node_object \<Rightarrow> bool" where
  "node_eq (NodeO x) other = (case other of NodeO x' \<Rightarrow> x = x' | _ \<Rightarrow> False)"
| "node_eq (BaseStatementO x) other = (case other of BaseStatementO x' \<Rightarrow> x = x' | _ \<Rightarrow> False)"
| "node_eq (MainO b x) other =
     (case other of MainO b' x' \<Rightarrow> node_eq b b' \<and> x = x' | _ \<Rightarrow> False)"
| "node_eq (BlockO ss x) other =
     (case other of BlockO ss' x' \<Rightarrow> list_all2 node_eq ss ss' \<and> x = x' | _ \<Rightarrow> False)"
| "node_eq (StatementO e d) other =
     (case other of StatementO e' d' \<Rightarrow> node_eq e e' \<and> d = d' | _ \<Rightarrow> False)"
| "node_eq (AssignmentO t v x) other =
     (case other of AssignmentO t' v' x' \<Rightarrow> t = t' \<and> node_eq v v' \<and> x = x' | _ \<Rightarrow> False)"
| "node_eq (InstanceVariableAssignmentO n v x) other =
     (case other of
        InstanceVariableAssignmentO n' v' x' \<Rightarrow> n = n' \<and> node_eq v v' \<and> x = x'
      | _ \<Rightarrow> False)"
| "node_eq (IfO c b x) other =
     (case other of IfO c' b' x' \<Rightarrow> node_eq c c' \<and> node_eq b b' \<and> x = x' | _ \<Rightarrow> False)"
| "node_eq (WhileO c b x) other =
     (case other of WhileO c' b' x' \<Rightarrow> node_eq c c' \<and> node_eq b b' \<and> x = x' | _ \<Rightarrow> False)"
| "node_eq (ClassO n s b x) other =
     (case other of
        ClassO n' s' b' x' \<Rightarrow> n = n' \<and> rel_option node_eq s s' \<and> node_eq b b' \<and> x = x'
      | _ \<Rightarrow> False)"
| "node_eq (FunctionO n as b x) other =
     (case other of
        FunctionO n' as' b' x' \<Rightarrow> n = n' \<and> as = as' \<and> node_eq b b' \<and> x = x'
      | _ \<Rightarrow> False)"
| "node_eq (ReturnO e x) other =
     (case other of ReturnO e' x' \<Rightarrow> node_eq e e' \<and> x = x' | _ \<Rightarrow> False)"
| "node_eq (BinOpO op l r x) other =
     (case other of
        BinOpO op' l' r' x' \<Rightarrow> op = op' \<and> node_eq l l' \<and> node_eq r r' \<and> x = x'
      | _ \<Rightarrow> False)"
| "node_eq (SendO r m as x) other =
     (case other of
        SendO r' m' as' x' \<Rightarrow> node_eq r r' \<and> m = m' \<and> list_all2 node_eq as as' \<and> x = x'
      | _ \<Rightarrow> False)"
| "node_eq (SelfO x) other = (case other of SelfO x' \<Rightarrow> x = x' | _ \<Rightarrow> False)"
| "node_eq (VariableO n x) other =
     (case other of VariableO n' x' \<Rightarrow> n = n' \<and> x = x' | _ \<Rightarrow> False)"
| "node_eq (InstanceVariableO n x) other =
     (case other of InstanceVariableO n' x' \<Rightarrow> n = n' \<and> x = x' | _ \<Rightarrow> False)"
| "node_eq (ArrayO xs x) other =
     (case other of ArrayO xs' x' \<Rightarrow> list_all2 node_eq xs xs' \<and> x = x' | _ \<Rightarrow> False)"
| "node_eq (ConstantIntO i x) other =
     (case other of ConstantIntO i' x' \<Rightarrow> i = i' \<and> x = x' | _ \<Rightarrow> False)"
| "node_eq (ConstantStringO s x) other =
     (case other of ConstantStringO s' x' \<Rightarrow> s = s' \<and> x = x' | _ \<Rightarrow> False)"

datatype py_object = NodeObj node_object | IntObj int | StrObj string | BoolObj bool | NoneObj
  | ListOfObj "py_object list"

datatype eq_result = NotImplemented | Answer bool

definition Node_eq :: "node_object \<Rightarrow> py_object \<Rightarrow> eq_result" where
  "Node_eq self other =
     (case other of NodeObj y \<Rightarrow> Answer (node_eq self y) | _ \<Rightarrow> NotImplemented)"

section \<open>Objects and the construction of a Block\<close>

text \<open>
  \<^verbatim>\<open>Block.__init__\<close> assigns an attribute of an object that its caller can reach, so
  nodes are objects in a store here: the store is a list of objects, a reference is
  a position in it, an allocation appends. An object is an instance (its class name
  and its \<^verbatim>\<open>__dict__\<close>, in insertion order) or a Python list of references. Assigning
  an attribute of a list object, or indexing an instance, is an error.
\<close>

datatype pyval = Ref nat | BoolV bool | StrV string

datatype obj = Instance string "(string \<times> pyval) list" | ListObj "nat list"

type_synonym heap = "obj list"

datatype heap_error = TypeError | AttributeError

fun dict_set :: "string \<Rightarrow> pyval \<Rightarrow> (string \<times> pyval) list \<Rightarrow> (string \<times> pyval) list" where
  "dict_set k v [] = [(k, v)]"
| "dict_set k v (p # ps) = (if fst p = k then (k, v) # ps else p # dict_set k v ps)"

definition alloc :: "obj \<Rightarrow> heap \<Rightarrow> nat \<times> heap" where
  "alloc ob h = (length h, h @ [ob])"

definition setattr :: "nat \<Rightarrow> string \<Rightarrow> pyval \<Rightarrow> heap \<Rightarrow> heap_error + heap" where
  "setattr r a v h =
     (if r < length h then
        (case h ! r of
           Instance cls d \<Rightarrow> Inr (h[r := Instance cls (dict_set a v d)])
         | ListObj xs \<Rightarrow> Inl AttributeError)
      else Inl AttributeError)"

text \<open>
  \<^verbatim>\<open>Variable(name)\<close> and \<^verbatim>\<open>Statement(expr)\<close> allocate an instance with the attributes their
  \<^verbatim>\<open>__init__\<close> sets. \<^verbatim>\<open>Block(stmts)\<close> takes the reference of the caller's list: an empty
  list is replaced, in the local variable only, by a fresh list holding a fresh
  \<^verbatim>\<open>Statement(Variable("nil"))\<close>; then \<^verbatim>\<open>stmts[-1].dont_pop = True\<close> sets the attribute on
  the object the last element refers to, and the block stores the reference of the
  list in \<^verbatim>\<open>self.stmts\<close>.
\<close>

definition Variable_init :: "string \<Rightarrow> heap \<Rightarrow> nat \<times> heap" where
  "Variable_init name h = alloc (Instance ''Variable'' [(''name'', StrV name)]) h"

definition Statement_init :: "nat \<Rightarrow> heap \<Rightarrow> nat \<times> heap" where
  "Statement_init expr h =
     alloc (Instance ''Statement'' [(''expr'', Ref expr), (''dont_pop'', BoolV False)]) h"

definition Block_init :: "nat \<Rightarrow> heap \<Rightarrow> heap_error + (nat \<times> heap)" where
  "Block_init stmts h =
     (if stmts < length h then
        (case h ! stmts of
           Instance cls d \<Rightarrow> Inl TypeError
         | ListObj elems \<Rightarrow>
             (let (stmts1, h1) =
                    (if elems = [] then
                       (let (v, ha) = Variable_init ''nil'' h;
                            (s, hb) = Statement_init v ha
                        in alloc (ListObj [s]) hb)
                     else (stmts, h))
              in case h1 ! stmts1 of
                   Instance cls d \<Rightarrow> Inl TypeError
                 | ListObj elems1 \<Rightarrow>
                     (case setattr (last elems1) ''dont_pop'' (BoolV True) h1 of
                        Inl e \<Rightarrow> Inl e
                      | Inr h2 \<Rightarrow> Inr (alloc (Instance ''Block'' [(''stmts'', Ref stmts1)]) h2))))
      else Inl TypeError)"

text \<open>Reading an attribute of an object (\<^verbatim>\<open>None\<close> when the object has no such attribute).\<close>

definition getattr :: "heap \<Rightarrow> nat \<Rightarrow> string \<Rightarrow> pyval option" where
  "getattr h r a = (case h ! r of Instance cls d \<Rightarrow> map_of d a | ListObj xs \<Rightarrow> None)"

text \<open>
  A store in which one statement is the only element of one list and the first of
  another, and the stores after a block is made of the first list and then of the
  second.
\<close>

definition example_heap :: heap where
  "example_heap =
     [Instance ''Variable'' [(''name'', StrV ''a'')],
      Instance ''Statement'' [(''expr'', Ref 0), (''dont_pop'', BoolV False)],
      Instance ''Statement'' [(''expr'', Ref 0), (''dont_pop'', BoolV False)],
      ListObj [1],
      ListObj [1, 2]]"

definition example_heap_1 :: heap where
  "example_heap_1 =
     [Instance ''Variable'' [(''name'', StrV ''a'')],
      Instance ''Statement'' [(''expr'', Ref 0), (''dont_pop'', BoolV True)],
      Instance ''Statement'' [(''expr'', Ref 0), (''dont_pop'', BoolV False)],
      ListObj [1],
      ListObj [1, 2],
      Instance ''Block'' [(''stmts'', Ref 3)]]"

definition example_heap_2 :: heap where
  "example_heap_2 =
     [Instance ''Variable'' [(''name'', StrV ''a'')],
      Instance ''Statement'' [(''expr'', Ref 0), (''dont_pop'', BoolV True)],
      Instance ''Statement'' [(''expr'', Ref 0), (''dont_pop'', BoolV True)],
      ListObj [1],
      ListObj [1, 2],
      Instance ''Block'' [(''stmts'', Ref 3)],
      Instance ''Block'' [(''stmts'', Ref 4)]]"

section \<open>Basic properties of the context operations\<close>

lemma index_of_Some: "index_of x xs = Some i \<Longrightarrow> i < length xs \<and> xs ! i = x"
  by (induction xs arbitrary: i) (auto split: if_splits)

lemma index_of_None: "index_of x xs = None \<longleftrightarrow> x \<notin> set xs"
  by (induction xs) auto

lemma emit_fields [simp]:
  "data (emit c a ctx) = data ctx @ [(c, a)]"
  "const_pool (emit c a ctx) = const_pool ctx"
  "symbol_pool (emit c a ctx) = symbol_pool ctx"
  "locals (emit c a ctx) = locals ctx"
  by (simp_all add: emit_def)

lemma patch_jump_fields [simp]:
  "data (patch_jump pos ctx) = (data ctx)[pos := (fst (data ctx ! pos), [length (data ctx)])]"
  "const_pool (patch_jump pos ctx) = const_pool ctx"
  "symbol_pool (patch_jump pos ctx) = symbol_pool ctx"
  "locals (patch_jump pos ctx) = locals ctx"
  by (simp_all add: patch_jump_def)

lemma create_const_fields [simp]:
  "fst (create_const w ctx) = length (const_pool ctx)"
  "data (snd (create_const w ctx)) = data ctx"
  "const_pool (snd (create_const w ctx)) = const_pool ctx @ [w]"
  "symbol_pool (snd (create_const w ctx)) = symbol_pool ctx"
  "locals (snd (create_const w ctx)) = locals ctx"
  by (simp_all add: create_const_def)

lemma create_symbol_const_fields [simp]:
  "data (snd (create_symbol_const n ctx)) = data ctx"
  "const_pool (snd (create_symbol_const n ctx)) = const_pool ctx"
  "locals (snd (create_symbol_const n ctx)) = locals ctx"
  by (simp_all add: create_symbol_const_def split: option.splits)

lemma create_symbol_const_pool:
  "prefix (symbol_pool ctx) (symbol_pool (snd (create_symbol_const n ctx)))"
  "fst (create_symbol_const n ctx) < length (symbol_pool (snd (create_symbol_const n ctx)))"
  "symbol_pool (snd (create_symbol_const n ctx)) ! fst (create_symbol_const n ctx) = n"
  by (auto simp: create_symbol_const_def nth_append dest: index_of_Some split: option.splits)

lemma create_local_fields [simp]:
  "data (snd (create_local n ctx)) = data ctx"
  "const_pool (snd (create_local n ctx)) = const_pool ctx"
  "symbol_pool (snd (create_local n ctx)) = symbol_pool ctx"
  by (simp_all add: create_local_def split: option.splits)

lemma create_local_table:
  "prefix (locals ctx) (locals (snd (create_local n ctx)))"
  "fst (create_local n ctx) < length (locals (snd (create_local n ctx)))"
  "locals (snd (create_local n ctx)) ! fst (create_local n ctx) = n"
  by (auto simp: create_local_def nth_append dest: index_of_Some split: option.splits)

lemma prefix_list_update: "prefix xs ys \<Longrightarrow> length xs \<le> i \<Longrightarrow> prefix xs (ys[i := v])"
  by (auto simp: prefix_def list_update_append)

lemma compile_each_append:
  "compile_each (xs @ ys) ctx =
     (case compile_each xs ctx of Inl e \<Rightarrow> Inl e | Inr c \<Rightarrow> compile_each ys c)"
  by (induction xs arbitrary: ctx) (auto split: sum.splits)

lemma compile_downto_rev: "compile_downto xs ctx = compile_each (rev xs) ctx"
  by (induction xs arbitrary: ctx) (auto simp: compile_each_append split: sum.splits)

lemma compile_each_rel:
  assumes "compile_each xs ctx = Inr ctx'"
    and "\<And>c. R c c"
    and "\<And>a b c. R a b \<Longrightarrow> R b c \<Longrightarrow> R a c"
    and "\<And>x c c'. x \<in> set xs \<Longrightarrow> compile x c = Inr c' \<Longrightarrow> R c c'"
  shows "R ctx ctx'"
  using assms(1,4)
proof (induction xs arbitrary: ctx)
  case Nil
  then show ?case using assms(2) by simp
next
  case (Cons x xs)
  from Cons.prems(1) obtain c1 where c1: "compile x ctx = Inr c1" "compile_each xs c1 = Inr ctx'"
    by (auto split: sum.splits)
  have "R ctx c1" using Cons.prems(2)[of x ctx c1] c1(1) by simp
  moreover have "R c1 ctx'" by (rule Cons.IH[OF c1(2)]) (use Cons.prems(2) in auto)
  ultimately show ?case using assms(3) by blast
qed

lemma extends_refl [simp]: "extends c c"
  by (simp add: extends_def)

lemma extends_trans: "extends a b \<Longrightarrow> extends b c \<Longrightarrow> extends a c"
  by (auto simp: extends_def)

lemma extends_steps [simp]:
  "extends c (emit opc args c)"
  "extends c (snd (create_const w c))"
  "extends c (snd (create_symbol_const n c))"
  "extends c (snd (create_local n c))"
  by (simp_all add: extends_def create_symbol_const_pool create_local_table)

lemma extends_peel:
  "extends c c' \<Longrightarrow> extends c (emit opc args c')"
  "extends c c' \<Longrightarrow> extends c (snd (create_const w c'))"
  "extends c c' \<Longrightarrow> extends c (snd (create_symbol_const n c'))"
  "extends c c' \<Longrightarrow> extends c (snd (create_local n c'))"
  by (erule extends_trans, simp)+

lemma extends_patch: "extends c c' \<Longrightarrow> length (data c) \<le> pos \<Longrightarrow> extends c (patch_jump pos c')"
  by (simp add: extends_def prefix_list_update)

lemma extends_length: "extends c c' \<Longrightarrow> length (data c) \<le> length (data c')"
  by (simp add: extends_def prefix_length_le)


lemma compile_Main_iff:
  "compile (Main b) ctx = Inr ctx' \<longleftrightarrow>
     (\<exists>c1. compile b ctx = Inr c1 \<and>
        ctx' = emit RETURN [] (emit LOAD_CONST [length (const_pool c1)]
                 (snd (create_const W_True (emit DISCARD_TOP [] c1)))))"
  by (auto simp: Let_def split_beta split: sum.splits)

lemma compile_Statement_iff:
  "compile (Statement e d) ctx = Inr ctx' \<longleftrightarrow>
     (\<exists>c1. compile e ctx = Inr c1 \<and> ctx' = (if d then c1 else emit DISCARD_TOP [] c1))"
  by (auto split: sum.splits)

lemma compile_Assignment_iff:
  "compile (Assignment t v) ctx = Inr ctx' \<longleftrightarrow>
     t \<noteq> [] \<and>
     (if isupper (hd t)
      then \<exists>c1. compile v ctx = Inr c1 \<and>
             ctx' = emit STORE_CONSTANT [fst (create_symbol_const t c1)]
                      (snd (create_symbol_const t c1))
      else \<exists>c2. compile v (snd (create_local t ctx)) = Inr c2 \<and>
             ctx' = emit STORE_LOCAL [fst (create_local t ctx)] c2)"
  by (auto simp: Let_def split_beta split: sum.splits list.splits)

lemma compile_IVA_iff:
  "compile (InstanceVariableAssignment n v) ctx = Inr ctx' \<longleftrightarrow>
     (\<exists>c1. compile v ctx = Inr c1 \<and>
        ctx' = emit STORE_INSTANCE_VAR [fst (create_symbol_const n (emit LOAD_SELF [] c1))]
                 (snd (create_symbol_const n (emit LOAD_SELF [] c1))))"
  by (auto simp: Let_def split_beta split: sum.splits)

lemma compile_If_iff:
  "compile (If c b) ctx = Inr ctx' \<longleftrightarrow>
     (\<exists>c1 c3. compile c ctx = Inr c1 \<and> compile b (emit JUMP_IF_FALSE [0] c1) = Inr c3 \<and>
        ctx' = patch_jump (get_pos c3)
                 (emit LOAD_CONST [length (const_pool c3)]
                   (snd (create_const W_Nil (patch_jump (get_pos c1) (emit JUMP [0] c3))))))"
  by (auto simp: Let_def split_beta split: sum.splits)

lemma compile_While_iff:
  "compile (While c b) ctx = Inr ctx' \<longleftrightarrow>
     (\<exists>c1 c3. compile c ctx = Inr c1 \<and> compile b (emit JUMP_IF_FALSE [0] c1) = Inr c3 \<and>
        ctx' = emit LOAD_CONST [length (const_pool c3)]
                 (snd (create_const W_Nil
                   (patch_jump (get_pos c1)
                     (emit JUMP [get_pos ctx] (emit DISCARD_TOP [] c3))))))"
  by (auto simp: Let_def split_beta split: sum.splits)

lemma compile_Return_iff:
  "compile (Return e) ctx = Inr ctx' \<longleftrightarrow>
     (\<exists>c1. compile e ctx = Inr c1 \<and> ctx' = emit RETURN [] c1)"
  by (auto split: sum.splits)

lemma compile_Send_iff:
  "compile (Send r m as) ctx = Inr ctx' \<longleftrightarrow>
     (\<exists>c1 c2. compile r ctx = Inr c1 \<and> compile_each (rev as) c1 = Inr c2 \<and>
        ctx' = emit SEND [fst (create_symbol_const m c2), length as]
                 (snd (create_symbol_const m c2)))"
  by (auto simp: Let_def split_beta compile_downto_rev split: sum.splits)

lemma compile_BinOp_iff:
  "compile (BinOp op l r) ctx = Inr ctx' \<longleftrightarrow>
     (\<exists>c1 c2. compile l ctx = Inr c1 \<and> compile r c1 = Inr c2 \<and>
        ctx' = emit SEND [fst (create_symbol_const op c2), 1]
                 (snd (create_symbol_const op c2)))"
  by (auto simp: Let_def split_beta split: sum.splits)

lemma compile_Array_iff:
  "compile (Array items) ctx = Inr ctx' \<longleftrightarrow>
     (\<exists>c1. compile_each items ctx = Inr c1 \<and> ctx' = emit BUILD_ARRAY [length items] c1)"
  by (auto split: sum.splits)

lemma compile_Class_iff:
  "compile (Class n s b) ctx = Inr ctx' \<longleftrightarrow>
     (\<exists>b1. compile b new_context = Inr b1 \<and>
        ctx' = emit BUILD_CLASS [] (emit LOAD_CONST [Suc (length (const_pool ctx))]
          (snd (create_const (class_body_code b1)
            (emit LOAD_CONST [length (const_pool ctx)]
              (snd (create_const W_Nil
                (emit LOAD_CONST [fst (create_symbol_const n (emit LOAD_SELF [] ctx))]
                  (snd (create_symbol_const n (emit LOAD_SELF [] ctx)))))))))))"
  by (auto simp: Let_def split_beta class_body_code_def split: sum.splits)

lemma compile_Function_iff:
  "compile (Function n as b) ctx = Inr ctx' \<longleftrightarrow>
     (\<exists>f1. compile b (declare_params as) = Inr f1 \<and>
        ctx' = emit DEFINE_FUNCTION [] (emit LOAD_CONST [length (const_pool ctx)]
          (snd (create_const (create_bytecode (emit RETURN [] f1))
            (emit LOAD_CONST [fst (create_symbol_const n (emit LOAD_SELF [] ctx))]
              (snd (create_symbol_const n (emit LOAD_SELF [] ctx)))))))) "
  by (auto simp: Let_def split_beta declare_params_def split: sum.splits)

lemma compile_leaf:
  "compile Self ctx = Inr (emit LOAD_SELF [] ctx)"
  "compile (InstanceVariable n) ctx =
     Inr (emit LOAD_INSTANCE_VAR [fst (create_symbol_const n (emit LOAD_SELF [] ctx))]
            (snd (create_symbol_const n (emit LOAD_SELF [] ctx))))"
  "compile (ConstantInt i) ctx =
     Inr (emit LOAD_CONST [length (const_pool ctx)] (snd (create_const (W_Int i) ctx)))"
  "compile (ConstantString str) ctx =
     Inr (emit COPY_STRING [] (emit LOAD_CONST [length (const_pool ctx)]
            (snd (create_const (W_String str) ctx))))"
  by (simp_all add: Let_def split_beta create_int_const_def create_string_const_def)

lemma compile_Variable:
  "compile (Variable name) ctx =
     (if name = ''true'' then Inr (emit LOAD_CONST [length (const_pool ctx)] (snd (create_const W_True ctx)))
      else if name = ''false'' then Inr (emit LOAD_CONST [length (const_pool ctx)] (snd (create_const W_False ctx)))
      else if name = ''nil'' then Inr (emit LOAD_CONST [length (const_pool ctx)] (snd (create_const W_Nil ctx)))
      else if name = ''self'' then Inr (emit LOAD_SELF [] ctx)
      else if local_defined name ctx then
        Inr (emit LOAD_LOCAL [fst (create_local name ctx)] (snd (create_local name ctx)))
      else if name = [] then Inl IndexError
      else if isupper (hd name) then
        Inr (emit LOAD_CONSTANT [fst (create_symbol_const name ctx)] (snd (create_symbol_const name ctx)))
      else Inr (emit SEND [fst (create_symbol_const name (emit LOAD_SELF [] ctx)), 0]
                  (snd (create_symbol_const name (emit LOAD_SELF [] ctx)))))"
  by (auto simp: Let_def split_beta split: list.splits)

declare compile.simps [simp del]

declare compile_leaf [simp] compile.simps(2) [simp]

lemma compile_extends: "compile n ctx = Inr ctx' \<Longrightarrow> extends ctx ctx'"
proof (induction n arbitrary: ctx ctx')
  case (Block ss)
  then show ?case
    by (auto intro: compile_each_rel[where R = extends] extends_trans)
next
  case (Array ss)
  then show ?case unfolding compile_Array_iff
    by (auto intro!: extends_peel intro: compile_each_rel[where R = extends] extends_trans)
next
  case (Send r m as)
  from Send.prems obtain c1 c2 where c: "compile r ctx = Inr c1" "compile_each (rev as) c1 = Inr c2"
    "ctx' = emit SEND [fst (create_symbol_const m c2), length as] (snd (create_symbol_const m c2))"
    unfolding compile_Send_iff by blast
  have "extends ctx c1" using Send.IH(1) c(1) .
  moreover have "extends c1 c2"
    using c(2) Send.IH(2) by (auto intro: compile_each_rel[where R = extends] extends_trans)
  ultimately show ?case unfolding c(3) by (auto intro!: extends_peel intro: extends_trans)
next
  case (If c b)
  from If.prems obtain c1 c3 where c: "compile c ctx = Inr c1" "compile b (emit JUMP_IF_FALSE [0] c1) = Inr c3"
       "ctx' = patch_jump (get_pos c3)
                 (emit LOAD_CONST [length (const_pool c3)]
                   (snd (create_const W_Nil (patch_jump (get_pos c1) (emit JUMP [0] c3)))))"
    unfolding compile_If_iff by blast
  have 1: "extends ctx c1" using If.IH(1) c(1) .
  have 2: "extends c1 c3" using If.IH(2)[OF c(2)] by (auto intro: extends_trans[OF extends_steps(1)])
  have 3: "extends ctx c3" using 1 2 by (rule extends_trans)
  show ?case unfolding c(3) using 3 extends_length[OF 1] extends_length[OF 2] extends_length[OF 3]
    by (auto simp: get_pos_def intro!: extends_peel extends_patch)
next
  case (While c b)
  from While.prems obtain c1 c3 where c: "compile c ctx = Inr c1" "compile b (emit JUMP_IF_FALSE [0] c1) = Inr c3"
       "ctx' = emit LOAD_CONST [length (const_pool c3)]
                 (snd (create_const W_Nil
                   (patch_jump (get_pos c1)
                     (emit JUMP [get_pos ctx] (emit DISCARD_TOP [] c3)))))"
    unfolding compile_While_iff by blast
  have 1: "extends ctx c1" using While.IH(1) c(1) .
  have 2: "extends c1 c3" using While.IH(2)[OF c(2)] by (auto intro: extends_trans[OF extends_steps(1)])
  have 3: "extends ctx c3" using 1 2 by (rule extends_trans)
  show ?case unfolding c(3) using 3 extends_length[OF 1] extends_length[OF 2] extends_length[OF 3]
    by (auto simp: get_pos_def intro!: extends_peel extends_patch)
next
  case (BinOp op l r)
  then show ?case unfolding compile_BinOp_iff
    by (auto intro!: extends_peel) (blast intro: extends_trans)
next 
  case (Assignment t v)
  then show ?case unfolding compile_Assignment_iff
    by (auto split: if_splits intro!: extends_peel intro: extends_trans[OF extends_steps(4)])
next
  case (Variable n)
  then show ?case unfolding compile_Variable
    by (auto split: if_splits intro!: extends_peel)
qed (auto simp: compile_Main_iff compile_Statement_iff compile_IVA_iff compile_Return_iff
      compile_Class_iff compile_Function_iff Let_def split_beta create_int_const_def create_string_const_def 
     split: if_splits intro!: extends_peel)

lemma extends_emitted: "extends c c' \<Longrightarrow> data c' = data c @ emitted c c'"
  by (auto simp: extends_def emitted_def prefix_def)

lemma extends_nth: "extends c c' \<Longrightarrow> i < length (data c) \<Longrightarrow> data c' ! i = data c ! i"
  by (auto simp: extends_def prefix_def nth_append)

lemma emitted_self [simp]: "emitted c c = []"
  by (simp add: emitted_def)

lemma emitted_trans:
  "extends a b \<Longrightarrow> extends b c \<Longrightarrow> emitted a c = emitted a b @ emitted b c"
  by (auto simp: extends_def emitted_def prefix_def)

lemma emitted_emit:
  "extends c c' \<Longrightarrow> emitted c (emit opc args c') = emitted c c' @ [(opc, args)]"
  by (auto simp: extends_def emitted_def prefix_def)

lemma emitted_pools [simp]:
  "emitted c (snd (create_const w c')) = emitted c c'"
  "emitted c (snd (create_symbol_const n c')) = emitted c c'"
  "emitted c (snd (create_local n c')) = emitted c c'"
  "emitted (snd (create_local n c)) c' = emitted c c'"
  by (simp_all add: emitted_def)

lemma compile_each_extends: "compile_each xs ctx = Inr ctx' \<Longrightarrow> extends ctx ctx'"
  by (erule compile_each_rel[where R = extends]) (auto intro: extends_trans compile_extends)

lemma compile_each_total:
  assumes "\<And>x c. x \<in> set xs \<Longrightarrow> \<exists>c'. compile x c = Inr c'"
  shows "\<exists>c'. compile_each xs ctx = Inr c'"
  using assms
proof (induction xs arbitrary: ctx)
  case Nil
  then show ?case by simp
next
  case (Cons x xs)
  obtain c1 where "compile x ctx = Inr c1" using Cons.prems[of x ctx] by auto
  moreover obtain c2 where "compile_each xs c1 = Inr c2" using Cons.IH[of c1] Cons.prems by auto
  ultimately show ?case by simp
qed

lemma compile_total: "names_nonempty n \<Longrightarrow> \<exists>ctx'. compile n ctx = Inr ctx'"
proof (induction n arbitrary: ctx)
  case (Block ss)
  then show ?case by (auto intro: compile_each_total)
next
  case (Array ss)
  then have "\<exists>c'. compile_each ss ctx = Inr c'" by (auto intro: compile_each_total)
  then show ?case unfolding compile_Array_iff by blast
next
  case (Send r m as)
  obtain c1 where c1: "compile r ctx = Inr c1" using Send by simp blast
  have "\<exists>c'. compile_each (rev as) c1 = Inr c'" using Send by (auto intro: compile_each_total)
  then show ?case unfolding compile_Send_iff using c1 by blast
next
  case (If c b)
  obtain c1 where c1: "compile c ctx = Inr c1" using If by simp blast
  obtain c3 where "compile b (emit JUMP_IF_FALSE [0] c1) = Inr c3" using If by simp blast
  then show ?case unfolding compile_If_iff using c1 by blast
next
  case (While c b)
  obtain c1 where c1: "compile c ctx = Inr c1" using While by simp blast
  obtain c3 where "compile b (emit JUMP_IF_FALSE [0] c1) = Inr c3" using While by simp blast
  then show ?case unfolding compile_While_iff using c1 by blast
next
  case (BinOp op l r)
  obtain c1 where c1: "compile l ctx = Inr c1" using BinOp by simp blast
  obtain c2 where "compile r c1 = Inr c2" using BinOp by simp blast
  then show ?case unfolding compile_BinOp_iff using c1 by blast
next
  case (Assignment t v)
  then show ?case unfolding compile_Assignment_iff by (cases "isupper (hd t)") auto
next
  case (Variable n)
  then show ?case unfolding compile_Variable by auto
next
  case (Main b) then show ?case unfolding compile_Main_iff by auto
next
  case (Statement e d) then show ?case unfolding compile_Statement_iff by auto
next
  case (InstanceVariableAssignment n v) then show ?case unfolding compile_IVA_iff by auto
next
  case (Class n s b) then show ?case unfolding compile_Class_iff by auto
next
  case (Function n as b) then show ?case unfolding compile_Function_iff by auto
next
  case (Return e) then show ?case unfolding compile_Return_iff by auto
qed (simp_all add: Let_def split_beta)

lemma If_layout:
  assumes c1: "compile c ctx = Inr c1"
    and c3: "compile b (emit JUMP_IF_FALSE [0] c1) = Inr c3"
    and ctx': "ctx' = patch_jump (get_pos c3)
                 (emit LOAD_CONST [length (const_pool c3)]
                   (snd (create_const W_Nil (patch_jump (get_pos c1) (emit JUMP [0] c3)))))"
  shows "data ctx' = data ctx @ emitted ctx c1 @ [(JUMP_IF_FALSE, [Suc (length (data c3))])]
            @ emitted (emit JUMP_IF_FALSE [0] c1) c3
            @ [(JUMP, [Suc (Suc (length (data c3)))]), (LOAD_CONST, [length (const_pool c3)])]"
    and "const_pool ctx' = const_pool c3 @ [W_Nil]"
    and "symbol_pool ctx' = symbol_pool c3"
    and "locals ctx' = locals c3"
proof -
  define A where "A = emitted ctx c1"
  define B where "B = emitted (emit JUMP_IF_FALSE [0] c1) c3"
  have d1: "data c1 = data ctx @ A"
    unfolding A_def using compile_extends[OF c1] by (rule extends_emitted)
  have d3: "data c3 = data ctx @ A @ [(JUMP_IF_FALSE, [0])] @ B"
    unfolding B_def using extends_emitted[OF compile_extends[OF c3]] d1 by simp
  show "data ctx' = data ctx @ emitted ctx c1 @ [(JUMP_IF_FALSE, [Suc (length (data c3))])]
            @ emitted (emit JUMP_IF_FALSE [0] c1) c3
            @ [(JUMP, [Suc (Suc (length (data c3)))]), (LOAD_CONST, [length (const_pool c3)])]"
    unfolding ctx' A_def[symmetric] B_def[symmetric]
    by (simp add: get_pos_def d1 d3 list_update_append nth_append)
  show "const_pool ctx' = const_pool c3 @ [W_Nil]" "symbol_pool ctx' = symbol_pool c3"
    "locals ctx' = locals c3"
    unfolding ctx' by simp_all
qed

lemma While_layout:
  assumes c1: "compile c ctx = Inr c1"
    and c3: "compile b (emit JUMP_IF_FALSE [0] c1) = Inr c3"
    and ctx': "ctx' = emit LOAD_CONST [length (const_pool c3)]
                 (snd (create_const W_Nil
                   (patch_jump (get_pos c1)
                     (emit JUMP [get_pos ctx] (emit DISCARD_TOP [] c3)))))"
  shows "data ctx' = data ctx @ emitted ctx c1 @ [(JUMP_IF_FALSE, [Suc (Suc (length (data c3)))])]
            @ emitted (emit JUMP_IF_FALSE [0] c1) c3
            @ [(DISCARD_TOP, []), (JUMP, [length (data ctx)]),
               (LOAD_CONST, [length (const_pool c3)])]"
    and "const_pool ctx' = const_pool c3 @ [W_Nil]"
    and "symbol_pool ctx' = symbol_pool c3"
    and "locals ctx' = locals c3"
proof -
  define A where "A = emitted ctx c1"
  define B where "B = emitted (emit JUMP_IF_FALSE [0] c1) c3"
  have d1: "data c1 = data ctx @ A"
    unfolding A_def using compile_extends[OF c1] by (rule extends_emitted)
  have d3: "data c3 = data ctx @ A @ [(JUMP_IF_FALSE, [0])] @ B"
    unfolding B_def using extends_emitted[OF compile_extends[OF c3]] d1 by simp
  show "data ctx' = data ctx @ emitted ctx c1 @ [(JUMP_IF_FALSE, [Suc (Suc (length (data c3)))])]
            @ emitted (emit JUMP_IF_FALSE [0] c1) c3
            @ [(DISCARD_TOP, []), (JUMP, [length (data ctx)]),
               (LOAD_CONST, [length (const_pool c3)])]"
    unfolding ctx' A_def[symmetric] B_def[symmetric]
    by (simp add: get_pos_def d1 d3 list_update_append nth_append)
  show "const_pool ctx' = const_pool c3 @ [W_Nil]" "symbol_pool ctx' = symbol_pool c3"
    "locals ctx' = locals c3"
    unfolding ctx' by simp_all
qed

lemma context_ok_steps [simp]:
  "context_ok (emit opc args c) \<longleftrightarrow> context_ok c \<and> operand_ok (opc, args)"
  "context_ok (snd (create_const w c)) \<longleftrightarrow> context_ok c \<and> code_ok w"
  "context_ok (snd (create_symbol_const n c)) \<longleftrightarrow> context_ok c"
  "context_ok (snd (create_local n c)) \<longleftrightarrow> context_ok c"
  "context_ok new_context"
  by (auto simp: context_ok_def new_context_def)

lemma code_ok_create_bytecode [simp]: "code_ok (create_bytecode c) \<longleftrightarrow> context_ok c"
  by (simp add: create_bytecode_def context_ok_def)

lemma context_ok_declare_params [simp]: "context_ok (declare_params as)"
proof -
  have "context_ok c \<Longrightarrow> context_ok (fold (\<lambda>name c. snd (create_local name c)) as c)" for c
    by (induction as arbitrary: c) simp_all
  then show ?thesis by (simp add: declare_params_def)
qed

lemma context_ok_data:
  "context_ok c \<longleftrightarrow> list_all operand_ok (data c) \<and> list_all code_ok (const_pool c)"
  by (simp add: context_ok_def)

lemma compile_context_ok: "compile n ctx = Inr ctx' \<Longrightarrow> context_ok ctx \<Longrightarrow> context_ok ctx'"
proof (induction n arbitrary: ctx ctx')
  case (Block ss)
  have "context_ok ctx \<longrightarrow> context_ok ctx'"
    by (rule compile_each_rel[where R = "\<lambda>c c'. context_ok c \<longrightarrow> context_ok c'" and xs = ss])
       (use Block in auto)
  then show ?case using Block.prems by simp
next
  case (Array ss)
  from Array.prems(1) obtain c1 where c: "compile_each ss ctx = Inr c1"
      "ctx' = emit BUILD_ARRAY [length ss] c1"
    unfolding compile_Array_iff by blast
  have "context_ok ctx \<longrightarrow> context_ok c1"
    by (rule compile_each_rel[where R = "\<lambda>c c'. context_ok c \<longrightarrow> context_ok c'" and xs = ss])
       (use Array c in auto)
  then show ?case using Array.prems c(2) by (simp add: operand_ok_def)
next
  case (Send r m as)
  from Send.prems(1) obtain c1 c2 where c: "compile r ctx = Inr c1" "compile_each (rev as) c1 = Inr c2"
    "ctx' = emit SEND [fst (create_symbol_const m c2), length as] (snd (create_symbol_const m c2))"
    unfolding compile_Send_iff by blast
  have 1: "context_ok c1" using Send.IH(1)[OF c(1)] Send.prems(2) .
  have "context_ok c1 \<longrightarrow> context_ok c2"
    by (rule compile_each_rel[where R = "\<lambda>c c'. context_ok c \<longrightarrow> context_ok c'" and xs = "rev as"])
       (use Send.IH(2) c in auto)
  then show ?case using 1 c(3) by (simp add: operand_ok_def)
next
  case (If c b)
  from If.prems(1) obtain c1 c3 where c: "compile c ctx = Inr c1"
       "compile b (emit JUMP_IF_FALSE [0] c1) = Inr c3"
       "ctx' = patch_jump (get_pos c3)
                 (emit LOAD_CONST [length (const_pool c3)]
                   (snd (create_const W_Nil (patch_jump (get_pos c1) (emit JUMP [0] c3)))))"
    unfolding compile_If_iff by blast
  have 1: "context_ok c1" using If.IH(1)[OF c(1)] If.prems(2) .
  have 3: "context_ok c3" using If.IH(2)[OF c(2)] 1 by (simp add: operand_ok_def)
  have "list_all operand_ok (data ctx @ emitted ctx c1)" "list_all operand_ok (emitted (emit JUMP_IF_FALSE [0] c1) c3)"
    using 1 3 extends_emitted[OF compile_extends[OF c(1)]] extends_emitted[OF compile_extends[OF c(2)]]
    by (simp_all add: context_ok_data)
  then show ?case using 3 
    by (simp add: context_ok_data If_layout[OF c] operand_ok_def)
next
  case (While c b)
  from While.prems(1) obtain c1 c3 where c: "compile c ctx = Inr c1"
       "compile b (emit JUMP_IF_FALSE [0] c1) = Inr c3"
       "ctx' = emit LOAD_CONST [length (const_pool c3)]
                 (snd (create_const W_Nil
                   (patch_jump (get_pos c1)
                     (emit JUMP [get_pos ctx] (emit DISCARD_TOP [] c3)))))"
    unfolding compile_While_iff by blast
  have 1: "context_ok c1" using While.IH(1)[OF c(1)] While.prems(2) .
  have 3: "context_ok c3" using While.IH(2)[OF c(2)] 1 by (simp add: operand_ok_def)
  have "list_all operand_ok (data ctx @ emitted ctx c1)" "list_all operand_ok (emitted (emit JUMP_IF_FALSE [0] c1) c3)"
    using 1 3 extends_emitted[OF compile_extends[OF c(1)]] extends_emitted[OF compile_extends[OF c(2)]]
    by (simp_all add: context_ok_data)
  then show ?case using 3 
    by (simp add: context_ok_data While_layout[OF c] operand_ok_def)
next
  case (BinOp op l r)
  then show ?case unfolding compile_BinOp_iff by (auto simp: operand_ok_def)
next
  case (Assignment t v)
  then show ?case unfolding compile_Assignment_iff
    by (auto simp: operand_ok_def split: if_splits)
next
  case (Variable n)
  then show ?case unfolding compile_Variable
    by (auto simp: operand_ok_def split: if_splits)
next
  case (Main b) then show ?case unfolding compile_Main_iff by (auto simp: operand_ok_def)
next
  case (Statement e d) then show ?case unfolding compile_Statement_iff by (auto simp: operand_ok_def)
next
  case (InstanceVariableAssignment n v) then show ?case unfolding compile_IVA_iff by (auto simp: operand_ok_def)
next
  case (Class n s b) then show ?case unfolding compile_Class_iff 
    by (auto simp: operand_ok_def class_body_code_def)
next
  case (Function n as b) then show ?case unfolding compile_Function_iff by (auto simp: operand_ok_def)
next
  case (Return e) then show ?case unfolding compile_Return_iff by (auto simp: operand_ok_def)
qed (auto simp: operand_ok_def)

lemma create_local_defined:
  "local_defined name ctx \<Longrightarrow>
     snd (create_local name ctx) = ctx \<and> fst (create_local name ctx) < length (locals ctx)
     \<and> locals ctx ! fst (create_local name ctx) = name"
  by (auto simp: local_defined_def create_local_def index_of_None dest: index_of_Some split: option.splits)

lemma index_of_append_Some: "index_of x xs = Some i \<Longrightarrow> index_of x (xs @ ys) = Some i"
  by (induction xs arbitrary: i) (auto split: if_splits)

lemma index_of_append_later:
  "x \<notin> set xs \<Longrightarrow> index_of x (xs @ ys) = Some k \<Longrightarrow> length xs \<le> k"
  by (induction xs arbitrary: k) (auto split: if_splits)

lemma index_of_nth: "distinct xs \<Longrightarrow> j < length xs \<Longrightarrow> index_of (xs ! j) xs = Some j"
proof (induction xs arbitrary: j)
  case Nil
  then show ?case by simp
next
  case (Cons a xs)
  then show ?case by (cases j) auto
qed

lemma fold_create_local:
  "distinct as \<Longrightarrow> set as \<inter> set (locals c) = {} \<Longrightarrow>
     fold (\<lambda>name c. snd (create_local name c)) as c = c\<lparr>locals := locals c @ as\<rparr>"
proof (induction as arbitrary: c)
  case Nil
  then show ?case by simp
next
  case (Cons a as)
  have a: "index_of a (locals c) = None" using Cons.prems by (simp add: index_of_None)
  then have s: "snd (create_local a c) = c\<lparr>locals := locals c @ [a]\<rparr>"
    by (simp add: create_local_def)
  show ?case using Cons by (simp add: s)
qed

lemma declare_params_distinct:
  "distinct as \<Longrightarrow> declare_params as = \<lparr>data = [], const_pool = [], symbol_pool = [], locals = as\<rparr>"
  by (simp add: declare_params_def fold_create_local new_context_def)

lemma slot_of_prefix:
  assumes "prefix as ls" "distinct as"
  shows "j < length as \<Longrightarrow> index_of (as ! j) ls = Some j"
    and "x \<notin> set as \<Longrightarrow> index_of x ls = Some k \<Longrightarrow> length as \<le> k"
proof -
  from assms(1) obtain zs where ls: "ls = as @ zs" by (auto simp: prefix_def)
  show "j < length as \<Longrightarrow> index_of (as ! j) ls = Some j"
    using assms(2) by (simp add: ls index_of_append_Some index_of_nth)
  show "x \<notin> set as \<Longrightarrow> index_of x ls = Some k \<Longrightarrow> length as \<le> k"
    unfolding ls by (rule index_of_append_later)
qed

subsection \<open>Runs of the stack machine\<close>

lemma code_at_Nil [simp]: "code_at P lo []"
  by (simp add: code_at_def)

lemma code_at_Cons [simp]:
  "code_at P lo (x # xs) \<longleftrightarrow> lo < length P \<and> P ! lo = x \<and> code_at P (Suc lo) xs"
  by (simp add: code_at_def All_less_Suc2 conj_commute)

lemma code_at_append [simp]:
  "code_at P lo (xs @ ys) \<longleftrightarrow> code_at P lo xs \<and> code_at P (lo + length xs) ys"
  by (induction xs arbitrary: lo) auto

lemma code_at_self: "code_at (pre @ seg) (length pre) seg"
  by (simp add: code_at_def nth_append)

lemma exec_plain:
  assumes "stack_use ins = Some (p, q)" and "exec ins cs (pc, st) (pc', st')"
  shows "pc' = Suc pc \<and> p \<le> length st \<and> length st' = length st - p + q \<and> drop q st' = drop p st"
  using assms
  by (cases "(ins, cs, (pc, st), (pc', st'))" rule: exec.cases)
     (auto simp: drop_Suc numeral_2_eq_2 Suc_le_eq)

lemma leaves_outside:
  "leaves P cs lo hi n (pc, st) r \<Longrightarrow> \<not> (lo \<le> pc \<and> pc < hi) \<Longrightarrow> r = (pc, st) \<and> n = 0"
  by (erule leaves.cases) auto

lemma leaves_finishes: "leaves P cs lo hi n s r \<Longrightarrow> finishes P cs lo hi n s (Outside r)"
  by (induction rule: leaves.induct) (auto intro: finishes.intros)

lemma finishes_outside:
  "finishes P cs lo hi n (pc, st) r \<Longrightarrow> \<not> (lo \<le> pc \<and> pc < hi) \<Longrightarrow> r = Outside (pc, st) \<and> n = 0"
  by (erule finishes.cases) auto

lemma finishes_inside:
  "finishes P cs lo hi n (pc, st) r \<Longrightarrow> lo \<le> pc \<Longrightarrow> pc < hi \<Longrightarrow>
     (\<exists>s' m. n = Suc m \<and> pc < length P \<and> exec (P ! pc) cs (pc, st) s' \<and> finishes P cs lo hi m s' r)
   \<or> (P ! pc = (RETURN, []) \<and> (\<exists>v st'. st = v # st' \<and> r = Returned v st'))"
  by (erule finishes.cases) (auto simp: vm_step_def)

lemma finishes_step:
  "finishes P cs lo hi n (pc, st) r \<Longrightarrow> lo \<le> pc \<Longrightarrow> pc < hi \<Longrightarrow> P ! pc \<noteq> (RETURN, []) \<Longrightarrow>
     \<exists>s' m. n = Suc m \<and> pc < length P \<and> exec (P ! pc) cs (pc, st) s' \<and> finishes P cs lo hi m s' r"
  by (drule (2) finishes_inside) auto

lemma finishes_RETURN:
  "finishes P cs lo hi n (pc, st) r \<Longrightarrow> lo \<le> pc \<Longrightarrow> pc < hi \<Longrightarrow> P ! pc = (RETURN, []) \<Longrightarrow>
     \<exists>v st'. st = v # st' \<and> r = Returned v st'"
proof -
  assume run: "finishes P cs lo hi n (pc, st) r" and b: "lo \<le> pc" "pc < hi"
    and at: "P ! pc = (RETURN, [])"
  have "\<not> exec (P ! pc) cs (pc, st) s'" for s' unfolding at by (cases s') simp
  with finishes_inside[OF run b] show ?thesis by blast
qed

lemma finishes_split:
  "finishes P cs lo hi n s r \<Longrightarrow> lo \<le> a \<Longrightarrow> b \<le> hi \<Longrightarrow>
     (\<exists>n1 n2 s1. finishes P cs a b n1 s (Outside s1) \<and> finishes P cs lo hi n2 s1 r \<and> n = n1 + n2)
   \<or> (\<exists>n1 v st'. finishes P cs a b n1 s (Returned v st') \<and> r = Returned v st')"
proof (induction rule: finishes.induct)
  case (out pc st)
  then have "finishes P cs a b 0 (pc, st) (Outside (pc, st))"
      "finishes P cs lo hi 0 (pc, st) (Outside (pc, st))"
    by (auto intro!: finishes.out)
  then show ?case by fastforce
next
  case (step pc st s' n r)
  show ?case
  proof (cases "a \<le> pc \<and> pc < b")
    case True
    from step.IH[OF step.prems] show ?thesis
    proof (elim disjE exE conjE)
      fix n1 n2 s1
      assume ih: "finishes P cs a b n1 s' (Outside s1)" "finishes P cs lo hi n2 s1 r" "n = n1 + n2"
      have "finishes P cs a b (Suc n1) (pc, st) (Outside s1)"
        using True step.hyps(3) ih(1) by (auto intro: finishes.step)
      then show ?thesis using ih(2,3) by fastforce
    next
      fix n1 v st'
      assume ih: "finishes P cs a b n1 s' (Returned v st')" "r = Returned v st'"
      have "finishes P cs a b (Suc n1) (pc, st) (Returned v st')"
        using True step.hyps(3) ih(1) by (auto intro: finishes.step)
      then show ?thesis using ih(2) by blast
    qed
  next
    case False
    then have "finishes P cs a b 0 (pc, st) (Outside (pc, st))" by (rule finishes.out)
    moreover have "finishes P cs lo hi (Suc n) (pc, st) r"
      using step.hyps by (auto intro: finishes.step)
    ultimately show ?thesis by fastforce
  qed
next
  case (ret pc v st)
  show ?case
  proof (cases "a \<le> pc \<and> pc < b")
    case True
    then have "finishes P cs a b (Suc 0) (pc, v # st) (Returned v st)"
      using ret.hyps by (auto intro: finishes.ret)
    then show ?thesis by blast
  next
    case False
    then have "finishes P cs a b 0 (pc, v # st) (Outside (pc, v # st))" by (rule finishes.out)
    moreover have "finishes P cs lo hi (Suc 0) (pc, v # st) (Returned v st)"
      using ret.hyps by (auto intro: finishes.ret)
    ultimately show ?thesis by fastforce
  qed
qed

lemma effectD:
  "effect P cs lo hi p q F R \<Longrightarrow> length ws = p \<Longrightarrow> finishes P cs lo hi n (lo, ws @ st) r \<Longrightarrow>
     (F \<and> (\<exists>vs. length vs = q \<and> r = Outside (hi, vs @ st)))
   \<or> (R \<and> (\<exists>v us. r = Returned v (us @ st)))"
  unfolding effect_def by blast

lemma effectD0:
  "effect P cs lo hi 0 q F R \<Longrightarrow> finishes P cs lo hi n (lo, st) r \<Longrightarrow>
     (F \<and> (\<exists>vs. length vs = q \<and> r = Outside (hi, vs @ st)))
   \<or> (R \<and> (\<exists>v us. r = Returned v (us @ st)))"
  using effectD[of P cs lo hi 0 q F R "[]" n st r] by simp

lemma effect_weaken:
  "effect P cs lo hi p q F R \<Longrightarrow> (F \<Longrightarrow> F') \<Longrightarrow> (R \<Longrightarrow> R') \<Longrightarrow> effect P cs lo hi p q F' R'"
  unfolding effect_def by blast

lemma effect_empty: "effect P cs lo lo 0 0 True False"
  by (auto simp: effect_def dest: finishes_outside)

lemma effect_seq:
  assumes "lo \<le> mid" "mid \<le> hi"
    and 1: "effect P cs lo mid p q F1 R1" and 2: "effect P cs mid hi p' q' F2 R2" and "p' \<le> q"
  shows "effect P cs lo hi p (q - p' + q') (F1 \<and> F2) (R1 \<or> R2)"
  unfolding effect_def
proof (intro allI impI)
  fix n ws st r
  assume ws: "length ws = p" and run: "finishes P cs lo hi n (lo, ws @ st) r"
  let ?goal = "((F1 \<and> F2) \<and> (\<exists>vs. length vs = q - p' + q' \<and> r = Outside (hi, vs @ st)))
      \<or> ((R1 \<or> R2) \<and> (\<exists>v us. r = Returned v (us @ st)))"
  from finishes_split[OF run order_refl assms(2)] show ?goal
  proof (elim disjE exE conjE)
    fix n1 v st'
    assume a: "finishes P cs lo mid n1 (lo, ws @ st) (Returned v st')" and r: "r = Returned v st'"
    from effectD[OF 1 ws a] have "R1 \<and> (\<exists>us. st' = us @ st)" by auto
    then show ?goal using r by auto
  next
    fix n1 n2 s1
    assume a: "finishes P cs lo mid n1 (lo, ws @ st) (Outside s1)"
      and b: "finishes P cs lo hi n2 s1 r"
    from effectD[OF 1 ws a] obtain vs where F1: F1 and vs: "length vs = q" "s1 = (mid, vs @ st)"
      by auto
    have sp: "vs @ st = take p' vs @ (drop p' vs @ st)" by simp
    have lt: "length (take p' vs) = p'" using vs(1) assms(5) by simp
    have b': "finishes P cs lo hi n2 (mid, take p' vs @ (drop p' vs @ st)) r"
      using b unfolding vs(2) by (simp only: sp[symmetric])
    from finishes_split[OF b' assms(1) order_refl] show ?goal
    proof (elim disjE exE conjE)
      fix m1 v st'
      assume c: "finishes P cs mid hi m1 (mid, take p' vs @ (drop p' vs @ st)) (Returned v st')"
        and r: "r = Returned v st'"
      from effectD[OF 2 lt c] obtain us where R2: R2 and "st' = us @ drop p' vs @ st" by auto
      then have "r = Returned v ((us @ drop p' vs) @ st)" using r by simp
      then show ?goal using R2 by blast
    next
      fix m1 m2 s2
      assume c: "finishes P cs mid hi m1 (mid, take p' vs @ (drop p' vs @ st)) (Outside s2)"
        and d: "finishes P cs lo hi m2 s2 r"
      from effectD[OF 2 lt c] obtain us where F2: F2 and us: "length us = q'"
          "s2 = (hi, us @ drop p' vs @ st)" by auto
      from d have "r = Outside (hi, (us @ drop p' vs) @ st)"
        unfolding us(2) by (auto dest: finishes_outside)
      moreover have "length (us @ drop p' vs) = q - p' + q'" using us(1) vs(1) by simp
      ultimately show ?goal using F1 F2 by blast
    qed
  qed
qed

lemma effect_instr:
  assumes "stack_use (P ! pc) = Some (p, q)"
  shows "effect P cs pc (Suc pc) p q True False"
  unfolding effect_def
proof (intro allI impI)
  fix n ws st r
  assume ws: "length ws = p" and run: "finishes P cs pc (Suc pc) n (pc, ws @ st) r"
  have "P ! pc \<noteq> (RETURN, [])" using assms by auto
  from finishes_step[OF run _ _ this] obtain s' m where
    s: "exec (P ! pc) cs (pc, ws @ st) s'" "finishes P cs pc (Suc pc) m s' r" by auto
  obtain pc' st' where s': "s' = (pc', st')" by (cases s')
  from exec_plain[OF assms s(1)[unfolded s']] ws
  have e: "pc' = Suc pc" "length st' = length st + q" "drop q st' = st" by auto
  from s(2) have "r = Outside (Suc pc, st')" unfolding s' e(1) by (auto dest: finishes_outside)
  moreover have "st' = take q st' @ st" using e(3) by (metis append_take_drop_id)
  moreover have "length (take q st') = q" using e(2) by simp
  ultimately have "\<exists>vs. length vs = q \<and> r = Outside (Suc pc, vs @ st)" by metis
  then show "(True \<and> (\<exists>vs. length vs = q \<and> r = Outside (Suc pc, vs @ st)))
      \<or> (False \<and> (\<exists>v us. r = Returned v (us @ st)))" by simp
qed

lemma effect_return:
  assumes "P ! pc = (RETURN, [])" and "0 < p"
  shows "effect P cs pc (Suc pc) p q False True"
  unfolding effect_def
proof (intro allI impI)
  fix n ws st r
  assume ws: "length ws = p" and run: "finishes P cs pc (Suc pc) n (pc, ws @ st) r"
  from finishes_RETURN[OF run _ _ assms(1)] obtain v st' where
    v: "ws @ st = v # st'" "r = Returned v st'" by auto
  from ws assms(2) obtain w ws' where "ws = w # ws'" by (cases ws) auto
  with v have "r = Returned v (ws' @ st)" by simp
  then show "(False \<and> (\<exists>vs. length vs = q \<and> r = Outside (Suc pc, vs @ st)))
      \<or> (True \<and> (\<exists>v us. r = Returned v (us @ st)))" by blast
qed

lemma effect_tail:
  "effect P cs lo mid p0 a F R \<Longrightarrow> lo \<le> mid \<Longrightarrow> code_at P mid is \<Longrightarrow> depth_after is a = Some b
     \<Longrightarrow> effect P cs lo (mid + length is) p0 b F R"
proof (induction "is" arbitrary: mid a)
  case Nil
  then show ?case by simp
next
  case (Cons i "is")
  from Cons.prems(4) obtain p q where u: "stack_use i = Some (p, q)" "p \<le> a"
      "depth_after is (a - p + q) = Some b"
    by (auto split: option.splits if_splits)
  from Cons.prems(3) have at: "P ! mid = i" "code_at P (Suc mid) is" by simp_all
  have "effect P cs mid (Suc mid) p q True False" using u(1) at(1) by (auto intro: effect_instr)
  from effect_seq[OF Cons.prems(2) _ Cons.prems(1) this u(2)]
  have "effect P cs lo (Suc mid) p0 (a - p + q) F R" by simp
  from Cons.IH[OF this _ at(2) u(3)] Cons.prems(2) show ?case by simp
qed

lemma emitted_length: "extends c c' \<Longrightarrow> length (data c) + length (emitted c c') = length (data c')"
  by (drule extends_emitted) (metis length_append)

lemma emitted_emit' [simp]:
  "length (data c) \<le> length (data c') \<Longrightarrow>
     emitted c (emit opc args c') = emitted c c' @ [(opc, args)]"
  by (simp add: emitted_def)

lemma effect_then_tail:
  assumes "extends ctx c1" and "extends ctx ctx'"
    and "effect P cs (length (data ctx)) (length (data c1)) 0 a F R"
    and "emitted ctx ctx' = emitted ctx c1 @ tail"
    and "code_at P (length (data ctx)) (emitted ctx ctx')"
    and "depth_after tail a = Some b"
  shows "effect P cs (length (data ctx)) (length (data ctx')) 0 b F R"
proof -
  have l1: "length (data ctx) + length (emitted ctx c1) = length (data c1)"
    using assms(1) by (rule emitted_length)
  have l2: "length (data ctx') = length (data c1) + length tail"
    using emitted_length[OF assms(2)] l1 assms(4) by simp
  have "code_at P (length (data c1)) tail" using assms(5) l1 by (simp add: assms(4))
  from effect_tail[OF assms(3) extends_length[OF assms(1)] this assms(6)]
  show ?thesis by (simp add: l2)
qed

lemma step_JUMP_IF_FALSE:
  assumes "finishes P cs lo hi n (pc, v # st) r" "lo \<le> pc" "pc < hi"
    and "P ! pc = (JUMP_IF_FALSE, [t])"
  shows "\<exists>m. n = Suc m \<and> finishes P cs lo hi m (if is_true v then Suc pc else t, st) r"
proof -
  have "P ! pc \<noteq> (RETURN, [])" using assms(4) by simp
  from finishes_step[OF assms(1-3) this] obtain s' m where
    s: "n = Suc m" "exec (P ! pc) cs (pc, v # st) s'" "finishes P cs lo hi m s' r" by blast
  from s(2) have "s' = (if is_true v then Suc pc else t, st)"
    unfolding assms(4) by (cases s') simp
  then show ?thesis using s(1,3) by simp
qed

lemma step_JUMP:
  assumes "finishes P cs lo hi n (pc, st) r" "lo \<le> pc" "pc < hi" and "P ! pc = (JUMP, [t])"
  shows "\<exists>m. n = Suc m \<and> finishes P cs lo hi m (t, st) r"
proof -
  have "P ! pc \<noteq> (RETURN, [])" using assms(4) by simp
  from finishes_step[OF assms(1-3) this] obtain s' m where
    s: "n = Suc m" "exec (P ! pc) cs (pc, st) s'" "finishes P cs lo hi m s' r" by blast
  from s(2) have "s' = (t, st)" unfolding assms(4) by (cases s') simp
  then show ?thesis using s(1,3) by simp
qed

lemma step_LOAD_CONST:
  assumes "finishes P cs lo hi n (pc, st) r" "lo \<le> pc" "pc < hi" and "P ! pc = (LOAD_CONST, [k])"
  shows "\<exists>m x. n = Suc m \<and> (k < length cs \<longrightarrow> x = cs ! k)
           \<and> finishes P cs lo hi m (Suc pc, x # st) r"
proof -
  have "P ! pc \<noteq> (RETURN, [])" using assms(4) by simp
  from finishes_step[OF assms(1-3) this] obtain s' m where
    s: "n = Suc m" "exec (P ! pc) cs (pc, st) s'" "finishes P cs lo hi m s' r" by blast
  from s(2) have "\<exists>x. s' = (Suc pc, x # st) \<and> (k < length cs \<longrightarrow> x = cs ! k)"
    unfolding assms(4) by (cases s') (auto simp: neq_Nil_conv)
  then show ?thesis using s(1,3) by auto
qed

lemma step_DISCARD_TOP:
  assumes "finishes P cs lo hi n (pc, v # st) r" "lo \<le> pc" "pc < hi"
    and "P ! pc = (DISCARD_TOP, [])"
  shows "\<exists>m. n = Suc m \<and> finishes P cs lo hi m (Suc pc, st) r"
proof -
  have "P ! pc \<noteq> (RETURN, [])" using assms(4) by simp
  from finishes_step[OF assms(1-3) this] obtain s' m where
    s: "n = Suc m" "exec (P ! pc) cs (pc, v # st) s'" "finishes P cs lo hi m s' r" by blast
  from s(2) have "s' = (Suc pc, st)" unfolding assms(4) by (cases s') auto
  then show ?thesis using s(1,3) by simp
qed

lemma length_one: "length vs = Suc 0 \<Longrightarrow> \<exists>v. vs = [v]"
  by (cases vs) auto

lemma effect_one:
  assumes "effect P cs lo hi 0 1 F R" and "finishes P cs lo hi n (lo, st) r"
  shows "(F \<and> (\<exists>v. r = Outside (hi, v # st))) \<or> (R \<and> (\<exists>v us. r = Returned v (us @ st)))"
proof -
  have "\<exists>v. r = Outside (hi, v # st)" if "length vs = 1" "r = Outside (hi, vs @ st)" for vs
    using that by (cases vs) auto
  with effectD0[OF assms] show ?thesis by blast
qed

lemma If_exits:
  assumes "lo \<le> pos" and "Suc pos \<le> e"
    and cond: "effect P cs lo pos 0 1 F1 R1"
    and jif: "P ! pos = (JUMP_IF_FALSE, [Suc e])"
    and body: "effect P cs (Suc pos) e 0 1 F2 R2"
    and jmp: "P ! e = (JUMP, [Suc (Suc e)])"
    and nil: "P ! Suc e = (LOAD_CONST, [k])"
    and run: "finishes P cs lo (Suc (Suc e)) n (lo, st) r"
  shows "(F1 \<and> (\<exists>v. r = Outside (Suc (Suc e), v # st)))
     \<or> ((R1 \<or> R2) \<and> (\<exists>v us. r = Returned v (us @ st)))"
proof -
  let ?hi = "Suc (Suc e)"
  let ?goal = "(F1 \<and> (\<exists>v. r = Outside (?hi, v # st)))
     \<or> ((R1 \<or> R2) \<and> (\<exists>v us. r = Returned v (us @ st)))"
  have le: "pos \<le> ?hi" "e \<le> ?hi" using assms(2) by simp_all
  from finishes_split[OF run order_refl le(1)] show ?goal
  proof (elim disjE exE conjE)
    fix n1 v st'
    assume a: "finishes P cs lo pos n1 (lo, st) (Returned v st')" and r: "r = Returned v st'"
    from effect_one[OF cond a] have "R1 \<and> (\<exists>us. st' = us @ st)" by auto
    then show ?goal using r by auto
  next
    fix n1 n2 s1
    assume a: "finishes P cs lo pos n1 (lo, st) (Outside s1)"
      and b: "finishes P cs lo ?hi n2 s1 r"
    from effect_one[OF cond a] obtain v where F1: F1 and s1: "s1 = (pos, v # st)" by auto
    from step_JUMP_IF_FALSE[OF b[unfolded s1] _ _ jif] assms(1,2) obtain m where
      c: "finishes P cs lo ?hi m (if is_true v then Suc pos else Suc e, st) r" by auto
    show ?goal
    proof (cases "is_true v")
      case False
      with c have "finishes P cs lo ?hi m (Suc e, st) r" by simp
      from step_LOAD_CONST[OF this _ _ nil] assms(1,2) obtain m' x where
        "finishes P cs lo ?hi m' (?hi, x # st) r" by auto
      then have "r = Outside (?hi, x # st)" by (auto dest: finishes_outside)
      then show ?thesis using F1 by blast
    next
      case True
      with c have d: "finishes P cs lo ?hi m (Suc pos, st) r" by simp
      have lo': "lo \<le> Suc pos" using assms(1) by simp
      from finishes_split[OF d lo' le(2)] show ?thesis
      proof (elim disjE exE conjE)
        fix m1 w st'
        assume f: "finishes P cs (Suc pos) e m1 (Suc pos, st) (Returned w st')"
          and r: "r = Returned w st'"
        from effect_one[OF body f] have "R2 \<and> (\<exists>us. st' = us @ st)" by auto
        then show ?thesis using r by auto
      next
        fix m1 m2 s2
        assume f: "finishes P cs (Suc pos) e m1 (Suc pos, st) (Outside s2)"
          and g: "finishes P cs lo ?hi m2 s2 r"
        from effect_one[OF body f] obtain bv where s2: "s2 = (e, bv # st)" by auto
        from step_JUMP[OF g[unfolded s2] _ _ jmp] assms(1,2) obtain m3 where
          "finishes P cs lo ?hi m3 (?hi, bv # st) r" by auto
        then have "r = Outside (?hi, bv # st)" by (auto dest: finishes_outside)
        then show ?thesis using F1 by blast
      qed
    qed
  qed
qed

lemma While_exits:
  assumes "lo \<le> pos" and "Suc pos \<le> e"
    and cond: "effect P cs lo pos 0 1 F1 R1"
    and jif: "P ! pos = (JUMP_IF_FALSE, [Suc (Suc e)])"
    and body: "effect P cs (Suc pos) e 0 1 F2 R2"
    and dis: "P ! e = (DISCARD_TOP, [])"
    and jmp: "P ! Suc e = (JUMP, [lo])"
    and nil: "P ! Suc (Suc e) = (LOAD_CONST, [k])"
  shows "finishes P cs lo (Suc (Suc (Suc e))) n (lo, st) r \<Longrightarrow>
     (F1 \<and> (\<exists>v. r = Outside (Suc (Suc (Suc e)), v # st) \<and> (k < length cs \<longrightarrow> v = cs ! k)))
     \<or> ((R1 \<or> R2) \<and> (\<exists>v us. r = Returned v (us @ st)))"
proof (induction n arbitrary: r rule: less_induct)
  case (less n)
  let ?hi = "Suc (Suc (Suc e))"
  let ?goal = "(F1 \<and> (\<exists>v. r = Outside (?hi, v # st) \<and> (k < length cs \<longrightarrow> v = cs ! k)))
     \<or> ((R1 \<or> R2) \<and> (\<exists>v us. r = Returned v (us @ st)))"
  have le: "pos \<le> ?hi" "e \<le> ?hi" using assms(2) by simp_all
  from finishes_split[OF less.prems order_refl le(1)] show ?case
  proof (elim disjE exE conjE)
    fix n1 v st'
    assume a: "finishes P cs lo pos n1 (lo, st) (Returned v st')" and r: "r = Returned v st'"
    from effect_one[OF cond a] have "R1 \<and> (\<exists>us. st' = us @ st)" by auto
    then show ?goal using r by auto
  next
    fix n1 n2 s1
    assume a: "finishes P cs lo pos n1 (lo, st) (Outside s1)"
      and b: "finishes P cs lo ?hi n2 s1 r" and n: "n = n1 + n2"
    from effect_one[OF cond a] obtain v where F1: F1 and s1: "s1 = (pos, v # st)" by auto
    from step_JUMP_IF_FALSE[OF b[unfolded s1] _ _ jif] assms(1,2) obtain m where
      c: "finishes P cs lo ?hi m (if is_true v then Suc pos else Suc (Suc e), st) r"
      and m: "n2 = Suc m" by auto
    show ?goal
    proof (cases "is_true v")
      case False
      with c have "finishes P cs lo ?hi m (Suc (Suc e), st) r" by simp
      from step_LOAD_CONST[OF this _ _ nil] assms(1,2) obtain m' x where
        x: "k < length cs \<longrightarrow> x = cs ! k" "finishes P cs lo ?hi m' (?hi, x # st) r" by auto
      from x(2) have "r = Outside (?hi, x # st)" by (auto dest: finishes_outside)
      then show ?thesis using F1 x(1) by blast
    next
      case True
      with c have d: "finishes P cs lo ?hi m (Suc pos, st) r" by simp
      have lo': "lo \<le> Suc pos" using assms(1) by simp
      from finishes_split[OF d lo' le(2)] show ?thesis
      proof (elim disjE exE conjE)
        fix m1 w st'
        assume f: "finishes P cs (Suc pos) e m1 (Suc pos, st) (Returned w st')"
          and r: "r = Returned w st'"
        from effect_one[OF body f] have "R2 \<and> (\<exists>us. st' = us @ st)" by auto
        then show ?thesis using r by auto
      next
        fix m1 m2 s2
        assume f: "finishes P cs (Suc pos) e m1 (Suc pos, st) (Outside s2)"
          and g: "finishes P cs lo ?hi m2 s2 r" and m12: "m = m1 + m2"
        from effect_one[OF body f] obtain bv where s2: "s2 = (e, bv # st)" by auto
        from step_DISCARD_TOP[OF g[unfolded s2] _ _ dis] assms(1,2) obtain m3 where
          h: "finishes P cs lo ?hi m3 (Suc e, st) r" and m3: "m2 = Suc m3" by auto
        from step_JUMP[OF h _ _ jmp] assms(1,2) obtain m4 where
          i: "finishes P cs lo ?hi m4 (lo, st) r" and m4: "m3 = Suc m4" by auto
        have "m4 < n" using n m m12 m3 m4 by simp
        from less.IH[OF this i] show ?thesis .
      qed
    qed
  qed
qed

lemma effect_then_tail_return:
  assumes "extends ctx c1" and "extends ctx ctx'"
    and "effect P cs (length (data ctx)) (length (data c1)) 0 a F R"
    and "emitted ctx ctx' = emitted ctx c1 @ tail @ [(RETURN, [])]"
    and "code_at P (length (data ctx)) (emitted ctx ctx')"
    and "depth_after tail a = Some b" and "0 < b"
  shows "effect P cs (length (data ctx)) (length (data ctx')) 0 q False True"
proof -
  have l1: "length (data ctx) + length (emitted ctx c1) = length (data c1)"
    using assms(1) by (rule emitted_length)
  have l2: "length (data ctx') = Suc (length (data c1) + length tail)"
    using emitted_length[OF assms(2)] l1 assms(4) by simp
  have at: "code_at P (length (data c1)) tail" "P ! (length (data c1) + length tail) = (RETURN, [])"
    using assms(5) l1 by (simp_all add: assms(4) add.assoc)
  have 1: "effect P cs (length (data ctx)) (length (data c1) + length tail) 0 b F R"
    using effect_tail[OF assms(3) extends_length[OF assms(1)] at(1) assms(6)] .
  have 2: "effect P cs (length (data c1) + length tail) (Suc (length (data c1) + length tail)) b q
      False True"
    using at(2) assms(7) by (rule effect_return)
  have "length (data ctx) \<le> length (data c1) + length tail"
    using extends_length[OF assms(1)] by simp
  from effect_seq[OF this _ 1 2] show ?thesis by (simp add: l2)
qed

lemma return_exact:
  assumes "extends ctx c1" and "extends ctx ctx'"
    and "effect P cs (length (data ctx)) (length (data c1)) 0 a F False"
    and "emitted ctx ctx' = emitted ctx c1 @ tail @ [(RETURN, [])]"
    and "code_at P (length (data ctx)) (emitted ctx ctx')"
    and "depth_after tail a = Some 1"
    and run: "finishes P cs (length (data ctx)) (length (data ctx')) n (length (data ctx), st) r"
  shows "\<exists>v. r = Returned v st"
proof -
  let ?lo = "length (data ctx)" and ?mid = "length (data c1) + length tail"
  have l1: "?lo + length (emitted ctx c1) = length (data c1)"
    using assms(1) by (rule emitted_length)
  have l2: "length (data ctx') = Suc ?mid"
    using emitted_length[OF assms(2)] l1 assms(4) by simp
  have at: "code_at P (length (data c1)) tail" "P ! ?mid = (RETURN, [])"
    using assms(5) l1 by (simp_all add: assms(4) add.assoc)
  have 1: "effect P cs ?lo ?mid 0 1 F False"
    using effect_tail[OF assms(3) extends_length[OF assms(1)] at(1) assms(6)] .
  have le: "?lo \<le> ?mid" using extends_length[OF assms(1)] by simp
  have run': "finishes P cs ?lo (Suc ?mid) n (?lo, st) r" using run unfolding l2 .
  have "?mid \<le> Suc ?mid" by simp
  from finishes_split[OF run' order_refl this] show ?thesis
  proof (elim disjE exE conjE)
    fix n1 v st'
    assume "finishes P cs ?lo ?mid n1 (?lo, st) (Returned v st')"
    from effect_one[OF 1 this] show ?thesis by simp
  next
    fix n1 n2 s1
    assume a: "finishes P cs ?lo ?mid n1 (?lo, st) (Outside s1)"
      and b: "finishes P cs ?lo (Suc ?mid) n2 s1 r"
    from effect_one[OF 1 a] obtain v where s1: "s1 = (?mid, v # st)" by auto
    from finishes_RETURN[OF b[unfolded s1] le _ at(2)] show ?thesis by auto
  qed
qed

lemma effect_only_tail:
  assumes "extends ctx ctx'" and "emitted ctx ctx' = tail"
    and "code_at P (length (data ctx)) (emitted ctx ctx')"
    and "depth_after tail 0 = Some b"
  shows "effect P cs (length (data ctx)) (length (data ctx')) 0 b True False"
  using effect_then_tail[OF extends_refl assms(1) effect_empty _ assms(3,4)] assms(2) by simp

lemma If_effect:
  assumes "lo \<le> pos" and "Suc pos \<le> e"
    and "effect P cs lo pos 0 1 F1 R1"
    and "P ! pos = (JUMP_IF_FALSE, [Suc e])"
    and "effect P cs (Suc pos) e 0 1 F2 R2"
    and "P ! e = (JUMP, [Suc (Suc e)])"
    and "P ! Suc e = (LOAD_CONST, [k])"
  shows "effect P cs lo (Suc (Suc e)) 0 1 F1 (R1 \<or> R2)"
  unfolding effect_def
proof (intro allI impI)
  fix n ws st r
  assume "length ws = 0" and "finishes P cs lo (Suc (Suc e)) n (lo, ws @ st) r"
  then have "finishes P cs lo (Suc (Suc e)) n (lo, st) r" by simp
  from If_exits[OF assms this]
  have "(F1 \<and> (\<exists>v. r = Outside (Suc (Suc e), [v] @ st)))
     \<or> ((R1 \<or> R2) \<and> (\<exists>v us. r = Returned v (us @ st)))" by simp
  moreover have "length [v] = 1" for v :: w_value by simp
  ultimately show "(F1 \<and> (\<exists>vs. length vs = 1 \<and> r = Outside (Suc (Suc e), vs @ st)))
     \<or> ((R1 \<or> R2) \<and> (\<exists>v us. r = Returned v (us @ st)))" by blast
qed

lemma While_effect:
  assumes "lo \<le> pos" and "Suc pos \<le> e"
    and "effect P cs lo pos 0 1 F1 R1"
    and "P ! pos = (JUMP_IF_FALSE, [Suc (Suc e)])"
    and "effect P cs (Suc pos) e 0 1 F2 R2"
    and "P ! e = (DISCARD_TOP, [])"
    and "P ! Suc e = (JUMP, [lo])"
    and "P ! Suc (Suc e) = (LOAD_CONST, [k])"
  shows "effect P cs lo (Suc (Suc (Suc e))) 0 1 F1 (R1 \<or> R2)"
  unfolding effect_def
proof (intro allI impI)
  fix n ws st r
  assume "length ws = 0" and "finishes P cs lo (Suc (Suc (Suc e))) n (lo, ws @ st) r"
  then have "finishes P cs lo (Suc (Suc (Suc e))) n (lo, st) r" by simp
  from While_exits[OF assms this]
  have "(F1 \<and> (\<exists>v. r = Outside (Suc (Suc (Suc e)), [v] @ st)))
     \<or> ((R1 \<or> R2) \<and> (\<exists>v us. r = Returned v (us @ st)))" by auto
  moreover have "length [v] = 1" for v :: w_value by simp
  ultimately show "(F1 \<and> (\<exists>vs. length vs = 1 \<and> r = Outside (Suc (Suc (Suc e)), vs @ st)))
     \<or> ((R1 \<or> R2) \<and> (\<exists>v us. r = Returned v (us @ st)))" by blast
qed

lemma If_code_at:
  assumes c: "compile c ctx = Inr c1" "compile b (emit JUMP_IF_FALSE [0] c1) = Inr c3"
       "ctx' = patch_jump (get_pos c3)
                 (emit LOAD_CONST [length (const_pool c3)]
                   (snd (create_const W_Nil (patch_jump (get_pos c1) (emit JUMP [0] c3)))))"
  shows "emitted ctx ctx' = emitted ctx c1 @ [(JUMP_IF_FALSE, [Suc (length (data c3))])]
            @ emitted (emit JUMP_IF_FALSE [0] c1) c3
            @ [(JUMP, [Suc (Suc (length (data c3)))]), (LOAD_CONST, [length (const_pool c3)])]"
    and "length (data ctx) \<le> length (data c1)"
    and "Suc (length (data c1)) \<le> length (data c3)"
    and "length (data ctx') = Suc (Suc (length (data c3)))"
    and "code_at P (length (data ctx)) (emitted ctx ctx') \<Longrightarrow>
           code_at P (length (data ctx)) (emitted ctx c1)
         \<and> P ! length (data c1) = (JUMP_IF_FALSE, [Suc (length (data c3))])
         \<and> code_at P (length (data (emit JUMP_IF_FALSE [0] c1))) (emitted (emit JUMP_IF_FALSE [0] c1) c3)
         \<and> P ! length (data c3) = (JUMP, [Suc (Suc (length (data c3)))])
         \<and> P ! Suc (length (data c3)) = (LOAD_CONST, [length (const_pool c3)])"
proof -
  let ?c2 = "emit JUMP_IF_FALSE [0] c1"
  have e1: "extends ctx c1" using c(1) by (rule compile_extends)
  have e3: "extends ?c2 c3" using c(2) by (rule compile_extends)
  have l1: "length (data ctx) + length (emitted ctx c1) = length (data c1)"
    using e1 by (rule emitted_length)
  have l3: "Suc (length (data c1)) + length (emitted ?c2 c3) = length (data c3)"
    using emitted_length[OF e3] by simp
  show em: "emitted ctx ctx' = emitted ctx c1 @ [(JUMP_IF_FALSE, [Suc (length (data c3))])]
            @ emitted ?c2 c3
            @ [(JUMP, [Suc (Suc (length (data c3)))]), (LOAD_CONST, [length (const_pool c3)])]"
    using If_layout(1)[OF c] by (simp add: emitted_def)
  show "length (data ctx) \<le> length (data c1)" using l1 by simp
  show "Suc (length (data c1)) \<le> length (data c3)" using l3 by simp
  show "length (data ctx') = Suc (Suc (length (data c3)))"
    using If_layout(1)[OF c] l1 l3 by simp
  show "code_at P (length (data ctx)) (emitted ctx ctx') \<Longrightarrow>
           code_at P (length (data ctx)) (emitted ctx c1)
         \<and> P ! length (data c1) = (JUMP_IF_FALSE, [Suc (length (data c3))])
         \<and> code_at P (length (data ?c2)) (emitted ?c2 c3)
         \<and> P ! length (data c3) = (JUMP, [Suc (Suc (length (data c3)))])
         \<and> P ! Suc (length (data c3)) = (LOAD_CONST, [length (const_pool c3)])"
    using l1 l3 unfolding em by (simp add: add.assoc)
qed

lemma While_code_at:
  assumes c: "compile c ctx = Inr c1" "compile b (emit JUMP_IF_FALSE [0] c1) = Inr c3"
       "ctx' = emit LOAD_CONST [length (const_pool c3)]
                 (snd (create_const W_Nil
                   (patch_jump (get_pos c1)
                     (emit JUMP [get_pos ctx] (emit DISCARD_TOP [] c3)))))"
  shows "emitted ctx ctx' = emitted ctx c1 @ [(JUMP_IF_FALSE, [Suc (Suc (length (data c3)))])]
            @ emitted (emit JUMP_IF_FALSE [0] c1) c3
            @ [(DISCARD_TOP, []), (JUMP, [length (data ctx)]),
               (LOAD_CONST, [length (const_pool c3)])]"
    and "length (data ctx) \<le> length (data c1)"
    and "Suc (length (data c1)) \<le> length (data c3)"
    and "length (data ctx') = Suc (Suc (Suc (length (data c3))))"
    and "code_at P (length (data ctx)) (emitted ctx ctx') \<Longrightarrow>
           code_at P (length (data ctx)) (emitted ctx c1)
         \<and> P ! length (data c1) = (JUMP_IF_FALSE, [Suc (Suc (length (data c3)))])
         \<and> code_at P (length (data (emit JUMP_IF_FALSE [0] c1))) (emitted (emit JUMP_IF_FALSE [0] c1) c3)
         \<and> P ! length (data c3) = (DISCARD_TOP, [])
         \<and> P ! Suc (length (data c3)) = (JUMP, [length (data ctx)])
         \<and> P ! Suc (Suc (length (data c3))) = (LOAD_CONST, [length (const_pool c3)])"
proof -
  let ?c2 = "emit JUMP_IF_FALSE [0] c1"
  have e1: "extends ctx c1" using c(1) by (rule compile_extends)
  have e3: "extends ?c2 c3" using c(2) by (rule compile_extends)
  have l1: "length (data ctx) + length (emitted ctx c1) = length (data c1)"
    using e1 by (rule emitted_length)
  have l3: "Suc (length (data c1)) + length (emitted ?c2 c3) = length (data c3)"
    using emitted_length[OF e3] by simp
  show em: "emitted ctx ctx' = emitted ctx c1 @ [(JUMP_IF_FALSE, [Suc (Suc (length (data c3)))])]
            @ emitted ?c2 c3
            @ [(DISCARD_TOP, []), (JUMP, [length (data ctx)]),
               (LOAD_CONST, [length (const_pool c3)])]"
    using While_layout(1)[OF c] by (simp add: emitted_def)
  show "length (data ctx) \<le> length (data c1)" using l1 by simp
  show "Suc (length (data c1)) \<le> length (data c3)" using l3 by simp
  show "length (data ctx') = Suc (Suc (Suc (length (data c3))))"
    using While_layout(1)[OF c] l1 l3 by simp
  show "code_at P (length (data ctx)) (emitted ctx ctx') \<Longrightarrow>
           code_at P (length (data ctx)) (emitted ctx c1)
         \<and> P ! length (data c1) = (JUMP_IF_FALSE, [Suc (Suc (length (data c3)))])
         \<and> code_at P (length (data ?c2)) (emitted ?c2 c3)
         \<and> P ! length (data c3) = (DISCARD_TOP, [])
         \<and> P ! Suc (length (data c3)) = (JUMP, [length (data ctx)])
         \<and> P ! Suc (Suc (length (data c3))) = (LOAD_CONST, [length (const_pool c3)])"
    using l1 l3 unfolding em by (simp add: add.assoc)
qed

lemma compile_each_effect:
  assumes "\<And>x c c'. x \<in> set xs \<Longrightarrow> compile x c = Inr c' \<Longrightarrow>
              code_at P (length (data c)) (emitted c c') \<Longrightarrow>
              effect P cs (length (data c)) (length (data c')) 0 (net x) (may_fall x) (may_return x)"
    and "compile_each xs ctx = Inr ctx'"
    and "code_at P (length (data ctx)) (emitted ctx ctx')"
  shows "effect P cs (length (data ctx)) (length (data ctx')) 0 (sum_list (map net xs))
           (\<forall>x \<in> set xs. may_fall x) (\<exists>x \<in> set xs. may_return x)"
  using assms
proof (induction xs arbitrary: ctx)
  case Nil
  then show ?case by (simp add: effect_empty)
next
  case (Cons x xs)
  from Cons.prems(2) obtain c1 where c1: "compile x ctx = Inr c1" "compile_each xs c1 = Inr ctx'"
    by (auto split: sum.splits)
  have e1: "extends ctx c1" using c1(1) by (rule compile_extends)
  have e2: "extends c1 ctx'" using c1(2) by (rule compile_each_extends)
  have at: "code_at P (length (data ctx)) (emitted ctx c1)"
     "code_at P (length (data c1)) (emitted c1 ctx')"
    using Cons.prems(3) emitted_length[OF e1] by (simp_all add: emitted_trans[OF e1 e2])
  have 1: "effect P cs (length (data ctx)) (length (data c1)) 0 (net x) (may_fall x) (may_return x)"
    using Cons.prems(1)[OF _ c1(1) at(1)] by simp
  have 2: "effect P cs (length (data c1)) (length (data ctx')) 0 (sum_list (map net xs))
      (\<forall>x \<in> set xs. may_fall x) (\<exists>x \<in> set xs. may_return x)"
    by (rule Cons.IH[OF _ c1(2) at(2)]) (use Cons.prems(1) in auto)
  from effect_seq[OF extends_length[OF e1] extends_length[OF e2] 1 2] show ?case by simp
qed

lemma sum_list_net_ones: "\<forall>x \<in> set xs. net x = 1 \<Longrightarrow> sum_list (map net xs) = length xs"
  by (induction xs) auto

lemma compile_effect:
  "balanced n \<Longrightarrow> compile n ctx = Inr ctx' \<Longrightarrow>
     code_at P (length (data ctx)) (emitted ctx ctx') \<Longrightarrow>
     effect P cs (length (data ctx)) (length (data ctx')) 0 (net n) (may_fall n) (may_return n)"
proof (induction n arbitrary: ctx ctx')
  case (Main b)
  from Main.prems(2) obtain c1 where c: "compile b ctx = Inr c1"
      "ctx' = emit RETURN [] (emit LOAD_CONST [length (const_pool c1)]
                 (snd (create_const W_True (emit DISCARD_TOP [] c1))))"
    unfolding compile_Main_iff by blast
  have e1: "extends ctx c1" using c(1) by (rule compile_extends)
  have em: "emitted ctx ctx' = emitted ctx c1
      @ [(DISCARD_TOP, []), (LOAD_CONST, [length (const_pool c1)])] @ [(RETURN, [])]"
    using extends_length[OF e1] by (simp add: c(2))
  have "effect P cs (length (data ctx)) (length (data c1)) 0 1 (may_fall b) (may_return b)"
    using Main.IH[OF _ c(1)] Main.prems(1,3) by (simp add: em)
  from effect_then_tail_return[OF e1 compile_extends[OF Main.prems(2)] this em Main.prems(3)]
  show ?case by simp
next
  case (Block ss)
  have "effect P cs (length (data ctx)) (length (data ctx')) 0 (sum_list (map net ss))
      (\<forall>x \<in> set ss. may_fall x) (\<exists>x \<in> set ss. may_return x)"
    by (rule compile_each_effect) (use Block in auto)
  then show ?case by simp
next
  case (Statement e d)
  from Statement.prems(2) obtain c1 where c: "compile e ctx = Inr c1"
      "ctx' = (if d then c1 else emit DISCARD_TOP [] c1)"
    unfolding compile_Statement_iff by blast
  have e1: "extends ctx c1" using c(1) by (rule compile_extends)
  show ?case
  proof (cases d)
    case True
    then show ?thesis using Statement.IH[OF _ c(1)] Statement.prems(1,3) c(2) by simp
  next
    case False
    have em: "emitted ctx ctx' = emitted ctx c1 @ [(DISCARD_TOP, [])]"
      using extends_length[OF e1] False by (simp add: c(2))
    have "effect P cs (length (data ctx)) (length (data c1)) 0 1 (may_fall e) (may_return e)"
      using Statement.IH[OF _ c(1)] Statement.prems(1,3) by (simp add: em)
    from effect_then_tail[OF e1 compile_extends[OF Statement.prems(2)] this em Statement.prems(3)]
    show ?thesis using False by simp
  qed
next
  case (Assignment t v)
  show ?case
  proof (cases "isupper (hd t)")
    case True
    from Assignment.prems(2) True obtain c1 where c: "compile v ctx = Inr c1"
        "ctx' = emit STORE_CONSTANT [fst (create_symbol_const t c1)] (snd (create_symbol_const t c1))"
      unfolding compile_Assignment_iff by auto
    have e1: "extends ctx c1" using c(1) by (rule compile_extends)
    have em: "emitted ctx ctx' = emitted ctx c1 @ [(STORE_CONSTANT, [fst (create_symbol_const t c1)])]"
      using extends_length[OF e1] by (simp add: c(2))
    have "effect P cs (length (data ctx)) (length (data c1)) 0 1 (may_fall v) (may_return v)"
      using Assignment.IH[OF _ c(1)] Assignment.prems(1,3) by (simp add: em)
    from effect_then_tail[OF e1 compile_extends[OF Assignment.prems(2)] this em Assignment.prems(3)]
    show ?thesis by simp
  next
    case False
    let ?c0 = "snd (create_local t ctx)"
    from Assignment.prems(2) False obtain c2 where c: "compile v ?c0 = Inr c2"
        "ctx' = emit STORE_LOCAL [fst (create_local t ctx)] c2"
      unfolding compile_Assignment_iff by auto
    have e0: "extends ?c0 c2" using c(1) by (rule compile_extends)
    have e1: "extends ctx c2" using extends_trans[OF extends_steps(4) e0] .
    have em: "emitted ctx ctx' = emitted ctx c2 @ [(STORE_LOCAL, [fst (create_local t ctx)])]"
      using extends_length[OF e1] by (simp add: c(2))
    have "effect P cs (length (data ?c0)) (length (data c2)) 0 1 (may_fall v) (may_return v)"
      using Assignment.IH[OF _ c(1)] Assignment.prems(1,3) by (simp add: em)
    then have "effect P cs (length (data ctx)) (length (data c2)) 0 1 (may_fall v) (may_return v)"
      by simp
    from effect_then_tail[OF e1 compile_extends[OF Assignment.prems(2)] this em Assignment.prems(3)]
    show ?thesis by simp
  qed
next
  case (InstanceVariableAssignment n v)
  from InstanceVariableAssignment.prems(2) obtain c1 where c: "compile v ctx = Inr c1"
      "ctx' = emit STORE_INSTANCE_VAR [fst (create_symbol_const n (emit LOAD_SELF [] c1))]
                 (snd (create_symbol_const n (emit LOAD_SELF [] c1)))"
    unfolding compile_IVA_iff by blast
  have e1: "extends ctx c1" using c(1) by (rule compile_extends)
  have em: "emitted ctx ctx' = emitted ctx c1 @ [(LOAD_SELF, []),
       (STORE_INSTANCE_VAR, [fst (create_symbol_const n (emit LOAD_SELF [] c1))])]"
    using extends_length[OF e1] by (simp add: c(2))
  have "effect P cs (length (data ctx)) (length (data c1)) 0 1 (may_fall v) (may_return v)"
    using InstanceVariableAssignment.IH[OF _ c(1)] InstanceVariableAssignment.prems(1,3)
    by (simp add: em)
  from effect_then_tail[OF e1 compile_extends[OF InstanceVariableAssignment.prems(2)] this em
      InstanceVariableAssignment.prems(3)]
  show ?case by simp
next
  case (If c b)
  from If.prems(2) obtain c1 c3 where c: "compile c ctx = Inr c1"
       "compile b (emit JUMP_IF_FALSE [0] c1) = Inr c3"
       "ctx' = patch_jump (get_pos c3)
                 (emit LOAD_CONST [length (const_pool c3)]
                   (snd (create_const W_Nil (patch_jump (get_pos c1) (emit JUMP [0] c3)))))"
    unfolding compile_If_iff by blast
  note at = If_code_at(5)[OF c If.prems(3)]
  have 1: "effect P cs (length (data ctx)) (length (data c1)) 0 1 (may_fall c) (may_return c)"
    using If.IH(1)[OF _ c(1)] at If.prems(1) by simp
  have 2: "effect P cs (Suc (length (data c1))) (length (data c3)) 0 1 (may_fall b) (may_return b)"
    using If.IH(2)[OF _ c(2)] at If.prems(1) by simp
  from If_effect[OF If_code_at(2,3)[OF c] 1 _ 2] at
  show ?case by (simp add: If_code_at(4)[OF c])
next
  case (While c b)
  from While.prems(2) obtain c1 c3 where c: "compile c ctx = Inr c1"
       "compile b (emit JUMP_IF_FALSE [0] c1) = Inr c3"
       "ctx' = emit LOAD_CONST [length (const_pool c3)]
                 (snd (create_const W_Nil
                   (patch_jump (get_pos c1)
                     (emit JUMP [get_pos ctx] (emit DISCARD_TOP [] c3)))))"
    unfolding compile_While_iff by blast
  note at = While_code_at(5)[OF c While.prems(3)]
  have 1: "effect P cs (length (data ctx)) (length (data c1)) 0 1 (may_fall c) (may_return c)"
    using While.IH(1)[OF _ c(1)] at While.prems(1) by simp
  have 2: "effect P cs (Suc (length (data c1))) (length (data c3)) 0 1 (may_fall b) (may_return b)"
    using While.IH(2)[OF _ c(2)] at While.prems(1) by simp
  from While_effect[OF While_code_at(2,3)[OF c] 1 _ 2] at
  show ?case by (simp add: While_code_at(4)[OF c])
next
  case (Class n s b)
  from Class.prems(2) obtain b1 where c:
        "ctx' = emit BUILD_CLASS [] (emit LOAD_CONST [Suc (length (const_pool ctx))]
          (snd (create_const (class_body_code b1)
            (emit LOAD_CONST [length (const_pool ctx)]
              (snd (create_const W_Nil
                (emit LOAD_CONST [fst (create_symbol_const n (emit LOAD_SELF [] ctx))]
                  (snd (create_symbol_const n (emit LOAD_SELF [] ctx))))))))))"
    unfolding compile_Class_iff by blast
  have em: "emitted ctx ctx' = [(LOAD_SELF, []),
        (LOAD_CONST, [fst (create_symbol_const n (emit LOAD_SELF [] ctx))]),
        (LOAD_CONST, [length (const_pool ctx)]), (LOAD_CONST, [Suc (length (const_pool ctx))]),
        (BUILD_CLASS, [])]"
    by (simp add: c emitted_def)
  from effect_only_tail[OF compile_extends[OF Class.prems(2)] em Class.prems(3)]
  show ?case by simp
next
  case (Function n as b)
  from Function.prems(2) obtain f1 where c:
        "ctx' = emit DEFINE_FUNCTION [] (emit LOAD_CONST [length (const_pool ctx)]
          (snd (create_const (create_bytecode (emit RETURN [] f1))
            (emit LOAD_CONST [fst (create_symbol_const n (emit LOAD_SELF [] ctx))]
              (snd (create_symbol_const n (emit LOAD_SELF [] ctx)))))))"
    unfolding compile_Function_iff by blast
  have em: "emitted ctx ctx' = [(LOAD_SELF, []),
        (LOAD_CONST, [fst (create_symbol_const n (emit LOAD_SELF [] ctx))]),
        (LOAD_CONST, [length (const_pool ctx)]), (DEFINE_FUNCTION, [])]"
    by (simp add: c emitted_def)
  from effect_only_tail[OF compile_extends[OF Function.prems(2)] em Function.prems(3)]
  show ?case by simp
next
  case (Return e)
  from Return.prems(2) obtain c1 where c: "compile e ctx = Inr c1" "ctx' = emit RETURN [] c1"
    unfolding compile_Return_iff by blast
  have e1: "extends ctx c1" using c(1) by (rule compile_extends)
  have em: "emitted ctx ctx' = emitted ctx c1 @ [] @ [(RETURN, [])]"
    using extends_length[OF e1] by (simp add: c(2))
  have "effect P cs (length (data ctx)) (length (data c1)) 0 1 (may_fall e) (may_return e)"
    using Return.IH[OF _ c(1)] Return.prems(1,3) by (simp add: em)
  from effect_then_tail_return[OF e1 compile_extends[OF Return.prems(2)] this em Return.prems(3)]
  show ?case by simp
next
  case (BinOp op l r)
  from BinOp.prems(2) obtain c1 c2 where c: "compile l ctx = Inr c1" "compile r c1 = Inr c2"
      "ctx' = emit SEND [fst (create_symbol_const op c2), 1] (snd (create_symbol_const op c2))"
    unfolding compile_BinOp_iff by blast
  have e1: "extends ctx c1" using c(1) by (rule compile_extends)
  have e2: "extends c1 c2" using c(2) by (rule compile_extends)
  have e12: "extends ctx c2" using e1 e2 by (rule extends_trans)
  have em: "emitted ctx ctx' = emitted ctx c2 @ [(SEND, [fst (create_symbol_const op c2), 1])]"
    using extends_length[OF e12] by (simp add: c(3))
  have at: "code_at P (length (data ctx)) (emitted ctx c1)"
     "code_at P (length (data c1)) (emitted c1 c2)"
    using BinOp.prems(3) emitted_length[OF e1] unfolding em by (simp_all add: emitted_trans[OF e1 e2])
  have 1: "effect P cs (length (data ctx)) (length (data c1)) 0 1 (may_fall l) (may_return l)"
    using BinOp.IH(1)[OF _ c(1) at(1)] BinOp.prems(1) by simp
  have 2: "effect P cs (length (data c1)) (length (data c2)) 0 1 (may_fall r) (may_return r)"
    using BinOp.IH(2)[OF _ c(2) at(2)] BinOp.prems(1) by simp
  from effect_seq[OF extends_length[OF e1] extends_length[OF e2] 1 2]
  have "effect P cs (length (data ctx)) (length (data c2)) 0 (Suc (Suc 0))
      (may_fall l \<and> may_fall r) (may_return l \<or> may_return r)" by simp
  from effect_then_tail[OF e12 compile_extends[OF BinOp.prems(2)] this em BinOp.prems(3)]
  show ?case by simp
next
  case (Send r m as)
  from Send.prems(2) obtain c1 c2 where c: "compile r ctx = Inr c1"
      "compile_each (rev as) c1 = Inr c2"
      "ctx' = emit SEND [fst (create_symbol_const m c2), length as] (snd (create_symbol_const m c2))"
    unfolding compile_Send_iff by blast
  have e1: "extends ctx c1" using c(1) by (rule compile_extends)
  have e2: "extends c1 c2" using c(2) by (rule compile_each_extends)
  have e12: "extends ctx c2" using e1 e2 by (rule extends_trans)
  have em: "emitted ctx ctx' = emitted ctx c2 @ [(SEND, [fst (create_symbol_const m c2), length as])]"
    using extends_length[OF e12] by (simp add: c(3))
  have at: "code_at P (length (data ctx)) (emitted ctx c1)"
     "code_at P (length (data c1)) (emitted c1 c2)"
    using Send.prems(3) emitted_length[OF e1] unfolding em by (simp_all add: emitted_trans[OF e1 e2])
  have 1: "effect P cs (length (data ctx)) (length (data c1)) 0 1 (may_fall r) (may_return r)"
    using Send.IH(1)[OF _ c(1) at(1)] Send.prems(1) by simp
  have "effect P cs (length (data c1)) (length (data c2)) 0 (sum_list (map net (rev as)))
      (\<forall>x \<in> set (rev as). may_fall x) (\<exists>x \<in> set (rev as). may_return x)"
    by (rule compile_each_effect[OF _ c(2) at(2)]) (use Send.IH(2) Send.prems(1) in auto)
  moreover have "sum_list (map net (rev as)) = length as"
    using sum_list_net_ones[of "rev as"] Send.prems(1) by simp
  ultimately have 2: "effect P cs (length (data c1)) (length (data c2)) 0 (length as)
      (\<forall>x \<in> set as. may_fall x) (\<exists>x \<in> set as. may_return x)" by simp
  from effect_seq[OF extends_length[OF e1] extends_length[OF e2] 1 2]
  have "effect P cs (length (data ctx)) (length (data c2)) 0 (Suc (length as))
      (may_fall r \<and> (\<forall>x \<in> set as. may_fall x)) (may_return r \<or> (\<exists>x \<in> set as. may_return x))"
    by simp
  from effect_then_tail[OF e12 compile_extends[OF Send.prems(2)] this em Send.prems(3)]
  show ?case by simp
next
  case Self
  have em: "emitted ctx ctx' = [(LOAD_SELF, [])]" using Self.prems(2) by (auto simp: emitted_def)
  from effect_only_tail[OF compile_extends[OF Self.prems(2)] em Self.prems(3)]
  show ?case by simp
next
  case (Variable n)
  have "\<exists>tail. emitted ctx ctx' = tail \<and> depth_after tail 0 = Some 1"
    using Variable.prems(2) unfolding compile_Variable
    by (auto simp: emitted_def split: if_splits)
  then obtain tail where t: "emitted ctx ctx' = tail" "depth_after tail 0 = Some 1" by blast
  from effect_only_tail[OF compile_extends[OF Variable.prems(2)] t(1) Variable.prems(3) t(2)]
  show ?case by simp
next
  case (InstanceVariable n)
  have em: "emitted ctx ctx' = [(LOAD_SELF, []),
      (LOAD_INSTANCE_VAR, [fst (create_symbol_const n (emit LOAD_SELF [] ctx))])]"
    using InstanceVariable.prems(2) by (auto simp: emitted_def)
  from effect_only_tail[OF compile_extends[OF InstanceVariable.prems(2)] em InstanceVariable.prems(3)]
  show ?case by simp
next
  case (Array items)
  from Array.prems(2) obtain c1 where c: "compile_each items ctx = Inr c1"
      "ctx' = emit BUILD_ARRAY [length items] c1"
    unfolding compile_Array_iff by blast
  have e1: "extends ctx c1" using c(1) by (rule compile_each_extends)
  have em: "emitted ctx ctx' = emitted ctx c1 @ [(BUILD_ARRAY, [length items])]"
    using extends_length[OF e1] by (simp add: c(2))
  have at: "code_at P (length (data ctx)) (emitted ctx c1)"
    using Array.prems(3) unfolding em by simp
  have "effect P cs (length (data ctx)) (length (data c1)) 0 (sum_list (map net items))
      (\<forall>x \<in> set items. may_fall x) (\<exists>x \<in> set items. may_return x)"
    by (rule compile_each_effect[OF _ c(1) at]) (use Array.IH Array.prems(1) in auto)
  moreover have "sum_list (map net items) = length items"
    using sum_list_net_ones[of items] Array.prems(1) by simp
  ultimately have "effect P cs (length (data ctx)) (length (data c1)) 0 (length items)
      (\<forall>x \<in> set items. may_fall x) (\<exists>x \<in> set items. may_return x)" by simp
  from effect_then_tail[OF e1 compile_extends[OF Array.prems(2)] this em Array.prems(3)]
  show ?case by simp
next
  case (ConstantInt i)
  have em: "emitted ctx ctx' = [(LOAD_CONST, [length (const_pool ctx)])]"
    using ConstantInt.prems(2) by (auto simp: emitted_def)
  from effect_only_tail[OF compile_extends[OF ConstantInt.prems(2)] em ConstantInt.prems(3)]
  show ?case by simp
next
  case (ConstantString s)
  have em: "emitted ctx ctx' = [(LOAD_CONST, [length (const_pool ctx)]), (COPY_STRING, [])]"
    using ConstantString.prems(2) by (auto simp: emitted_def)
  from effect_only_tail[OF compile_extends[OF ConstantString.prems(2)] em ConstantString.prems(3)]
  show ?case by simp
qed

text \<open>The equations that evaluate \<^verbatim>\<open>compile\<close> on a concrete tree.\<close>

lemmas ctx_eval = compile.simps Let_def new_context_def emit_def get_pos_def patch_jump_def
  create_local_def local_defined_def create_const_def create_int_const_def
  create_string_const_def create_symbol_const_def create_bytecode_def emitted_def isupper_def

lemma block_net_last:
  "\<forall>s \<in> set (butlast ss). net s = 0 \<Longrightarrow> ss \<noteq> [] \<Longrightarrow> sum_list (map net ss) = net (last ss)"
  by (induction ss) auto

lemma vm_step_JUMP_IF_FALSE:
  "P ! pc = (JUMP_IF_FALSE, [t]) \<Longrightarrow> pc < length P \<Longrightarrow>
     vm_step P cs (pc, v # st) s' \<longleftrightarrow> s' = (if is_true v then Suc pc else t, st)"
  by (cases s') (auto simp: vm_step_def)

lemma vm_step_JUMP:
  "P ! pc = (JUMP, [t]) \<Longrightarrow> pc < length P \<Longrightarrow> vm_step P cs (pc, st) s' \<longleftrightarrow> s' = (t, st)"
  by (cases s') (auto simp: vm_step_def)

lemma vm_step_LOAD_CONST:
  "P ! pc = (LOAD_CONST, [k]) \<Longrightarrow> pc < length P \<Longrightarrow> k < length cs \<Longrightarrow>
     vm_step P cs (pc, st) s' \<longleftrightarrow> s' = (Suc pc, cs ! k # st)"
  by (cases s') (auto simp: vm_step_def neq_Nil_conv)

lemma code_at_data:
  "compile n ctx = Inr ctx' \<Longrightarrow> code_at (data ctx') (length (data ctx)) (emitted ctx ctx')"
  using extends_emitted[OF compile_extends, of n ctx ctx'] code_at_self[of "data ctx" "emitted ctx ctx'"]
  by simp


subsection \<open>The example trees\<close>

lemma example_block_compile: "compile example_block new_context = Inr example_block_ctx"
  by (simp add: example_block_def example_block_ctx_def ctx_eval)

lemma example_block_run:
  "leaves (data example_block_ctx) (const_pool example_block_ctx) 0 7
     (Suc (Suc (Suc (Suc (Suc (Suc 0)))))) (0, []) (7, [W_Int 2])"
proof -
  let ?P = "data example_block_ctx" and ?cs = "const_pool example_block_ctx"
  note ev = vm_step_def example_block_ctx_def is_true_def
  have s6: "leaves ?P ?cs 0 7 0 (7, [W_Int 2]) (7, [W_Int 2])" by (rule leaves.outside) simp
  have s5: "leaves ?P ?cs 0 7 (Suc 0) (5, [W_Int 2]) (7, [W_Int 2])"
    by (rule leaves.inside[OF _ _ _ s6]) (simp_all add: ev)
  have s4: "leaves ?P ?cs 0 7 (Suc (Suc 0)) (4, []) (7, [W_Int 2])"
    by (rule leaves.inside[OF _ _ _ s5]) (simp_all add: ev)
  have s3: "leaves ?P ?cs 0 7 (Suc (Suc (Suc 0))) (3, [W_True]) (7, [W_Int 2])"
    by (rule leaves.inside[OF _ _ _ s4]) (simp_all add: ev)
  have s2: "leaves ?P ?cs 0 7 (Suc (Suc (Suc (Suc 0)))) (2, []) (7, [W_Int 2])"
    by (rule leaves.inside[OF _ _ _ s3]) (simp_all add: ev)
  have s1: "leaves ?P ?cs 0 7 (Suc (Suc (Suc (Suc (Suc 0))))) (1, [W_Int 1]) (7, [W_Int 2])"
    by (rule leaves.inside[OF _ _ _ s2]) (simp_all add: ev)
  show ?thesis
    by (rule leaves.inside[OF _ _ _ s1]) (simp_all add: ev)
qed

lemma example_if_compile: "compile example_if new_context = Inr example_if_ctx"
  by (simp add: example_if_def example_if_ctx_def ctx_eval)

lemma example_while_compile: "compile example_while new_context = Inr example_while_ctx"
  by (simp add: example_while_def example_while_ctx_def ctx_eval)

lemma example_while_run_0:
  "leaves (data example_while_ctx) (const_pool example_while_ctx) 0 7
     (Suc (Suc (Suc (Suc 0)))) (0, []) (7, [W_Nil])"
proof -
  let ?P = "data example_while_ctx" and ?cs = "const_pool example_while_ctx"
  note ev = vm_step_def example_while_ctx_def is_true_def
  have s4: "leaves ?P ?cs 0 7 0 (7, [W_Nil]) (7, [W_Nil])" by (rule leaves.outside) simp
  have s3: "leaves ?P ?cs 0 7 (Suc 0) (6, []) (7, [W_Nil])"
    by (rule leaves.inside[OF _ _ _ s4]) (simp_all add: ev)
  have s2: "leaves ?P ?cs 0 7 (Suc (Suc 0)) (2, [W_False]) (7, [W_Nil])"
    by (rule leaves.inside[OF _ _ _ s3]) (simp_all add: ev)
  have s1: "leaves ?P ?cs 0 7 (Suc (Suc (Suc 0))) (1, [W_Nil]) (7, [W_Nil])"
    by (rule leaves.inside[OF _ _ _ s2]) (simp_all add: ev)
  show ?thesis
    by (rule leaves.inside[OF _ _ _ s1]) (simp_all add: ev)
qed

lemma example_while_run_1:
  "leaves (data example_while_ctx) (const_pool example_while_ctx) 0 7
     (Suc (Suc (Suc (Suc (Suc (Suc (Suc (Suc (Suc (Suc 0)))))))))) (0, []) (7, [W_Nil])"
proof -
  let ?P = "data example_while_ctx" and ?cs = "const_pool example_while_ctx"
  note ev = vm_step_def example_while_ctx_def is_true_def
  note s0 = example_while_run_0
  have t5: "leaves ?P ?cs 0 7 (Suc (Suc (Suc (Suc (Suc 0))))) (5, []) (7, [W_Nil])"
    by (rule leaves.inside[OF _ _ _ s0]) (simp_all add: ev)
  have t4: "leaves ?P ?cs 0 7 (Suc (Suc (Suc (Suc (Suc (Suc 0)))))) (4, [W_Int 1]) (7, [W_Nil])"
    by (rule leaves.inside[OF _ _ _ t5]) (simp_all add: ev)
  have t3: "leaves ?P ?cs 0 7 (Suc (Suc (Suc (Suc (Suc (Suc (Suc 0))))))) (3, []) (7, [W_Nil])"
    by (rule leaves.inside[OF _ _ _ t4]) (simp_all add: ev)
  have t2: "leaves ?P ?cs 0 7 (Suc (Suc (Suc (Suc (Suc (Suc (Suc (Suc 0))))))))
      (2, [W_True]) (7, [W_Nil])"
    by (rule leaves.inside[OF _ _ _ t3]) (simp_all add: ev)
  have t1: "leaves ?P ?cs 0 7 (Suc (Suc (Suc (Suc (Suc (Suc (Suc (Suc (Suc 0)))))))))
      (1, [W_Nil]) (7, [W_Nil])"
    by (rule leaves.inside[OF _ _ _ t2]) (simp_all add: ev)
  show ?thesis
    by (rule leaves.inside[OF _ _ _ t1]) (simp_all add: ev)
qed

lemma example_return_compile: "compile (Return (ConstantInt 1)) new_context = Inr example_return_ctx"
  by (simp add: example_return_ctx_def ctx_eval)

lemma example_return_run:
  "finishes (data example_return_ctx) (const_pool example_return_ctx) 0 2 (Suc (Suc 0)) (0, [])
     (Returned (W_Int 1) [])"
proof -
  let ?P = "data example_return_ctx" and ?cs = "const_pool example_return_ctx"
  have s1: "finishes ?P ?cs 0 2 (Suc 0) (1, [W_Int 1]) (Returned (W_Int 1) [])"
    by (rule finishes.ret) (simp_all add: example_return_ctx_def)
  show ?thesis
    by (rule finishes.step[OF _ _ _ s1]) (simp_all add: vm_step_def example_return_ctx_def)
qed

lemma example_main_compile: "compile example_main new_context = Inr example_main_ctx"
  by (simp add: example_main_def example_main_ctx_def ctx_eval)

lemma example_main_run:
  "finishes (data example_main_ctx) (const_pool example_main_ctx) 0 4
     (Suc (Suc (Suc (Suc 0)))) (0, []) (Returned W_True [])"
proof -
  let ?P = "data example_main_ctx" and ?cs = "const_pool example_main_ctx"
  note ev = vm_step_def example_main_ctx_def
  have s3: "finishes ?P ?cs 0 4 (Suc 0) (3, [W_True]) (Returned W_True [])"
    by (rule finishes.ret) (simp_all add: ev)
  have s2: "finishes ?P ?cs 0 4 (Suc (Suc 0)) (2, []) (Returned W_True [])"
    by (rule finishes.step[OF _ _ _ s3]) (simp_all add: ev)
  have s1: "finishes ?P ?cs 0 4 (Suc (Suc (Suc 0))) (1, [W_Int 1]) (Returned W_True [])"
    by (rule finishes.step[OF _ _ _ s2]) (simp_all add: ev)
  show ?thesis
    by (rule finishes.step[OF _ _ _ s1]) (simp_all add: ev)
qed

subsection \<open>Equality of nodes is structural\<close>

lemma list_all2_eq_iff:
  "(\<And>x y. x \<in> set xs \<Longrightarrow> R x y \<longleftrightarrow> x = y) \<Longrightarrow> list_all2 R xs ys \<longleftrightarrow> xs = ys"
proof (induction xs arbitrary: ys)
  case Nil
  then show ?case by auto
next
  case (Cons x xs)
  then show ?case by (cases ys) auto
qed

lemma rel_option_eq_iff:
  "(\<And>x y. x \<in> set_option s \<Longrightarrow> R x y \<longleftrightarrow> x = y) \<Longrightarrow> rel_option R s t \<longleftrightarrow> s = t"
  by (cases s; cases t) auto

lemma node_eq_iff: "node_eq x y \<longleftrightarrow> x = y"
proof (induction x arbitrary: y)
  case (BlockO ss x)
  then show ?case by (cases y) (auto simp: list_all2_eq_iff)
next
  case (ArrayO ss x)
  then show ?case by (cases y) (auto simp: list_all2_eq_iff)
next
  case (SendO r m as x)
  then show ?case by (cases y) (auto simp: list_all2_eq_iff)
next
  case (ClassO n s b x)
  have "rel_option node_eq s t \<longleftrightarrow> s = t" for t
    by (cases s; cases t) (use ClassO.IH(1) in auto)
  then show ?case using ClassO.IH(2) by (cases y) auto
qed (case_tac y; auto)+

lemma dont_pop_entry_inject [simp]: "dont_pop_entry x = dont_pop_entry y \<longleftrightarrow> x = y"
  by (cases x; cases y) auto

lemma structural: "x = y \<longleftrightarrow> type_of x = type_of y \<and> fields x = fields y"
  by (cases x; cases y; simp)

subsection \<open>The construction of a Block\<close>

lemma map_of_dict_set: "map_of (dict_set k v d) a = (if a = k then Some v else map_of d a)"
  by (induction d) auto

lemma Block_init_nonempty:
  assumes "stmts < length h" and "h ! stmts = ListObj elems" and "elems \<noteq> []"
    and "last elems < length h" and "h ! last elems = Instance cls d"
  shows "Block_init stmts h =
     Inr (length h,
          h[last elems := Instance cls (dict_set ''dont_pop'' (BoolV True) d)]
            @ [Instance ''Block'' [(''stmts'', Ref stmts)]])"
  using assms by (simp add: Block_init_def setattr_def alloc_def)

lemma Block_init_empty:
  assumes "stmts < length h" and "h ! stmts = ListObj []"
  shows "Block_init stmts h =
     Inr (length h + 3,
          h @ [Instance ''Variable'' [(''name'', StrV ''nil'')],
               Instance ''Statement'' [(''expr'', Ref (length h)), (''dont_pop'', BoolV True)],
               ListObj [length h + 1],
               Instance ''Block'' [(''stmts'', Ref (length h + 2))]])"
  using assms
  by (simp add: Block_init_def setattr_def alloc_def Variable_init_def Statement_init_def
      nth_append list_update_append)

lemma getattr_append: "a < length h \<Longrightarrow> getattr (h @ rest) a k = getattr h a k"
  by (simp add: getattr_def nth_append)

section \<open>The claims\<close>

subsection \<open>C3: the code of a Send\<close>

text \<open>
  Claim C3. For every \<^verbatim>\<open>Send\<close> node with receiver \<open>r\<close>, method \<open>m\<close> and arguments \<open>as\<close>,
  \<^verbatim>\<open>compile\<close> succeeds exactly when the receiver compiles (giving \<open>c1\<close>) and then the
  arguments compile one after the other in reverse declared order, last argument
  first (giving \<open>c2\<close>); the code emitted is the receiver's code, then the code of the
  reversed argument list, then one \<^verbatim>\<open>SEND\<close> instruction whose operands are the index of
  \<open>m\<close> in the symbol pool and the number of arguments.
\<close>

theorem Send_compile_layout:
  "(compile (Send r m as) ctx = Inr ctx' \<longleftrightarrow>
      (\<exists>c1 c2 i c3. compile r ctx = Inr c1 \<and> compile_each (rev as) c1 = Inr c2 \<and>
         create_symbol_const m c2 = (i, c3) \<and> ctx' = emit SEND [i, length as] c3))
   \<and> (compile (Send r m as) ctx = Inr ctx' \<longrightarrow>
      (\<exists>c1 c2 i. compile r ctx = Inr c1 \<and> compile_each (rev as) c1 = Inr c2 \<and>
         emitted ctx ctx' = emitted ctx c1 @ emitted c1 c2 @ [(SEND, [i, length as])] \<and>
         i < length (symbol_pool ctx') \<and> symbol_pool ctx' ! i = m))"
proof (intro conjI impI)
  show "compile (Send r m as) ctx = Inr ctx' \<longleftrightarrow>
      (\<exists>c1 c2 i c3. compile r ctx = Inr c1 \<and> compile_each (rev as) c1 = Inr c2 \<and>
         create_symbol_const m c2 = (i, c3) \<and> ctx' = emit SEND [i, length as] c3)"
    unfolding compile_Send_iff by (metis prod.collapse fst_conv snd_conv)
next
  assume "compile (Send r m as) ctx = Inr ctx'"
  then obtain c1 c2 where c: "compile r ctx = Inr c1" "compile_each (rev as) c1 = Inr c2"
    "ctx' = emit SEND [fst (create_symbol_const m c2), length as] (snd (create_symbol_const m c2))"
    unfolding compile_Send_iff by blast
  have e1: "extends ctx c1" using c(1) by (rule compile_extends)
  have e2: "extends c1 c2" using c(2) by (rule compile_each_extends)
  have e3: "extends ctx (snd (create_symbol_const m c2))"
    using e1 e2 by (blast intro: extends_trans extends_peel)
  have "emitted ctx ctx' =
      emitted ctx c1 @ emitted c1 c2 @ [(SEND, [fst (create_symbol_const m c2), length as])]"
    unfolding c(3) using e1 e2 e3 by (simp add: emitted_emit emitted_trans[OF e1 e2])
  moreover have "fst (create_symbol_const m c2) < length (symbol_pool ctx')"
      "symbol_pool ctx' ! fst (create_symbol_const m c2) = m"
    unfolding c(3) by (simp_all add: create_symbol_const_pool)
  ultimately show "\<exists>c1 c2 i. compile r ctx = Inr c1 \<and> compile_each (rev as) c1 = Inr c2 \<and>
         emitted ctx ctx' = emitted ctx c1 @ emitted c1 c2 @ [(SEND, [i, length as])] \<and>
         i < length (symbol_pool ctx') \<and> symbol_pool ctx' ! i = m"
    using c(1,2) by blast
qed

text \<open>
  At \<^verbatim>\<open>Send(Self(), "m", [ConstantInt(1), ConstantInt(2)])\<close> in an empty context: the
  constant 2 is loaded before the constant 1, and \<^verbatim>\<open>SEND\<close> carries symbol 0 and count 2.
\<close>

theorem Send_compile_layout_witness:
  "compile (Send Self ''m'' [ConstantInt 1, ConstantInt 2]) new_context =
     Inr \<lparr>data = [(LOAD_SELF, []), (LOAD_CONST, [0]), (LOAD_CONST, [1]), (SEND, [0, 2])],
          const_pool = [W_Int 2, W_Int 1], symbol_pool = [''m''], locals = []\<rparr>
   \<and> (\<exists>c1 c2 i. compile Self new_context = Inr c1 \<and>
         compile_each (rev [ConstantInt 1, ConstantInt 2]) c1 = Inr c2 \<and>
         emitted new_context
           \<lparr>data = [(LOAD_SELF, []), (LOAD_CONST, [0]), (LOAD_CONST, [1]), (SEND, [0, 2])],
            const_pool = [W_Int 2, W_Int 1], symbol_pool = [''m''], locals = []\<rparr>
           = emitted new_context c1 @ emitted c1 c2
               @ [(SEND, [i, length [ConstantInt 1, ConstantInt 2]])] \<and>
         i < length [''m''] \<and> [''m''] ! i = ''m'')"
proof -
  have h: "compile (Send Self ''m'' [ConstantInt 1, ConstantInt 2]) new_context =
     Inr \<lparr>data = [(LOAD_SELF, []), (LOAD_CONST, [0]), (LOAD_CONST, [1]), (SEND, [0, 2])],
          const_pool = [W_Int 2, W_Int 1], symbol_pool = [''m''], locals = []\<rparr>"
    by (simp add: ctx_eval)
  from Send_compile_layout[THEN conjunct2, rule_format, OF h] h show ?thesis by simp
qed

subsection \<open>C8: empty names\<close>

text \<open>
  Claim C8. Compiling a \<^verbatim>\<open>Variable\<close> whose name is the empty string fails with the
  \<^verbatim>\<open>IndexError\<close> of \<^verbatim>\<open>name[0]\<close> unless the empty name is a defined local (it is never one
  of the named singletons nor \<^verbatim>\<open>self\<close>); compiling an \<^verbatim>\<open>Assignment\<close> whose target is the
  empty string always fails so; and when every compiled \<^verbatim>\<open>Variable\<close> name and
  \<^verbatim>\<open>Assignment\<close> target of a tree is non-empty, \<^verbatim>\<open>compile\<close> returns a context, in every
  context.
\<close>

theorem empty_name_IndexError:
  "(\<not> local_defined [] ctx \<longrightarrow> compile (Variable []) ctx = Inl IndexError)
   \<and> compile (Assignment [] v) ctx = Inl IndexError
   \<and> (names_nonempty n \<longrightarrow> (\<exists>ctx'. compile n ctx = Inr ctx'))"
  using compile_total[of n ctx] by (simp add: compile_Variable compile.simps)

theorem empty_name_IndexError_witness:
  "\<not> local_defined [] new_context
   \<and> compile (Variable []) new_context = Inl IndexError
   \<and> compile (Assignment [] (ConstantInt 1)) new_context = Inl IndexError
   \<and> names_nonempty (Assignment ''x'' (Variable ''y''))
   \<and> (\<exists>ctx'. compile (Assignment ''x'' (Variable ''y'')) new_context = Inr ctx')"
  using empty_name_IndexError[of new_context "ConstantInt 1" "Assignment ''x'' (Variable ''y'')"]
  by (simp add: local_defined_def new_context_def)

subsection \<open>C2: operands per instruction\<close>

text \<open>
  Claim C2 as stated fails: \<^verbatim>\<open>Send.compile\<close> calls
  \<^verbatim>\<open>ctx.emit(consts.SEND, ctx.create_symbol_const(self.method), len(self.args))\<close>,
  an instruction with two operands. Compiling \<^verbatim>\<open>Send(Self(), "m", [])\<close> in an empty
  context emits \<^verbatim>\<open>LOAD_SELF\<close> and then \<^verbatim>\<open>SEND\<close> with the operands 0 (the symbol) and 0 (the
  argument count).
\<close>

theorem two_operands_counterexample:
  "compile (Send Self ''m'' []) new_context =
     Inr \<lparr>data = [(LOAD_SELF, []), (SEND, [0, 0])],
          const_pool = [], symbol_pool = [''m''], locals = []\<rparr>
   \<and> length (snd (SEND, [0::nat, 0])) = 2"
  by (simp add: ctx_eval)

text \<open>
  Claim C2, amended. Every instruction that \<^verbatim>\<open>compile\<close> emits carries at most one
  operand, except \<^verbatim>\<open>SEND\<close>, which carries exactly two (the symbol index of the method
  and the argument count). This holds of the code emitted into the current unit and,
  through the invariant \<open>context_ok\<close>, of every nested unit that \<^verbatim>\<open>Class\<close> and \<^verbatim>\<open>Function\<close>
  store as a code object in the constant pool.
\<close>

theorem emitted_operand_counts:
  assumes "compile n ctx = Inr ctx'" and "context_ok ctx"
  shows "context_ok ctx' \<and>
     (\<forall>ins \<in> set (emitted ctx ctx').
        if fst ins = SEND then length (snd ins) = 2 else length (snd ins) \<le> 1)"
proof -
  have ok: "context_ok ctx'" using assms by (rule compile_context_ok)
  have "data ctx' = data ctx @ emitted ctx ctx'"
    using compile_extends[OF assms(1)] by (rule extends_emitted)
  then have "list_all operand_ok (emitted ctx ctx')"
    using ok by (simp add: context_ok_data)
  then show ?thesis using ok by (simp add: list_all_iff operand_ok_def)
qed

theorem emitted_operand_counts_witness:
  "compile (Send Self ''m'' [ConstantInt 1]) new_context =
     Inr \<lparr>data = [(LOAD_SELF, []), (LOAD_CONST, [0]), (SEND, [0, 1])],
          const_pool = [W_Int 1], symbol_pool = [''m''], locals = []\<rparr>
   \<and> context_ok new_context
   \<and> context_ok \<lparr>data = [(LOAD_SELF, []), (LOAD_CONST, [0]), (SEND, [0, 1])],
          const_pool = [W_Int 1], symbol_pool = [''m''], locals = []\<rparr>"
proof -
  have h: "compile (Send Self ''m'' [ConstantInt 1]) new_context =
     Inr \<lparr>data = [(LOAD_SELF, []), (LOAD_CONST, [0]), (SEND, [0, 1])],
          const_pool = [W_Int 1], symbol_pool = [''m''], locals = []\<rparr>"
    by (simp add: ctx_eval)
  have k: "context_ok new_context" by simp
  from emitted_operand_counts[OF h k] h k show ?thesis by simp
qed

subsection \<open>C4: resolution of a Variable\<close>

text \<open>
  Claim C4 as stated fails at the empty name: it is none of the named singletons, not
  \<^verbatim>\<open>self\<close>, and in an empty context not a local, so \<^verbatim>\<open>Variable.compile\<close> evaluates
  \<^verbatim>\<open>self.name[0]\<close> and raises \<^verbatim>\<open>IndexError\<close>, whereas step (5) of the claim would
  compile it as the send that \<^verbatim>\<open>Send(Self(), "", [])\<close> compiles to.
\<close>

theorem Variable_empty_name_counterexample:
  "compile (Variable []) new_context = Inl IndexError
   \<and> compile (Send Self [] []) new_context =
       Inr \<lparr>data = [(LOAD_SELF, []), (SEND, [0, 0])],
          const_pool = [], symbol_pool = [[]], locals = []\<rparr>"
  by (simp add: ctx_eval)

text \<open>
  Claim C4, amended. For every \<^verbatim>\<open>Variable\<close> node whose name is non-empty or is a defined
  local, \<^verbatim>\<open>compile\<close> resolves the name by the first match of: (1) \<^verbatim>\<open>true\<close>, \<^verbatim>\<open>false\<close>, \<^verbatim>\<open>nil\<close>
  load the corresponding singleton constant; (2) \<^verbatim>\<open>self\<close> emits \<^verbatim>\<open>LOAD_SELF\<close>; (3) a name
  with a local slot in the current context emits \<^verbatim>\<open>LOAD_LOCAL\<close> of that slot, leaving the
  context otherwise unchanged; (4) a name whose first character is an upper-case
  letter emits \<^verbatim>\<open>LOAD_CONSTANT\<close> of its symbol index; (5) any other name compiles as
  \<^verbatim>\<open>Send(Self(), name, [])\<close>.
\<close>

theorem Variable_resolution:
  assumes "name \<noteq> [] \<or> local_defined name ctx"
  shows "compile (Variable name) ctx =
     (if name = ''true'' then
        (let (k, c) = create_const W_True ctx in Inr (emit LOAD_CONST [k] c))
      else if name = ''false'' then
        (let (k, c) = create_const W_False ctx in Inr (emit LOAD_CONST [k] c))
      else if name = ''nil'' then
        (let (k, c) = create_const W_Nil ctx in Inr (emit LOAD_CONST [k] c))
      else if name = ''self'' then Inr (emit LOAD_SELF [] ctx)
      else if local_defined name ctx then
        Inr (emit LOAD_LOCAL [fst (create_local name ctx)] ctx)
      else if isupper (hd name) then
        (let (i, c) = create_symbol_const name ctx in Inr (emit LOAD_CONSTANT [i] c))
      else compile (Send Self name []) ctx)
   \<and> (local_defined name ctx \<longrightarrow>
        fst (create_local name ctx) < length (locals ctx) \<and>
        locals ctx ! fst (create_local name ctx) = name)"
  using assms create_local_defined[of name ctx]
  by (auto simp: compile_Variable compile_Send_iff Let_def split_beta compile.simps(12))

theorem Variable_resolution_witness:
  "''foo'' \<noteq> []
   \<and> compile (Variable ''foo'') new_context = compile (Send Self ''foo'' []) new_context
   \<and> compile (Variable ''foo'') new_context =
       Inr \<lparr>data = [(LOAD_SELF, []), (SEND, [0, 0])],
          const_pool = [], symbol_pool = [''foo''], locals = []\<rparr>"
proof -
  have h: "''foo'' \<noteq> [] \<or> local_defined ''foo'' new_context" by simp
  have e: "compile (Send Self ''foo'' []) new_context = Inr \<lparr>data = [(LOAD_SELF, []), (SEND, [0, 0])],
          const_pool = [], symbol_pool = [''foo''], locals = []\<rparr>"
    by (simp add: ctx_eval)
  have "compile (Variable ''foo'') new_context = compile (Send Self ''foo'' []) new_context"
    using Variable_resolution[OF h] by (simp add: local_defined_def new_context_def isupper_def)
  then show ?thesis using e by simp
qed

subsection \<open>C5: the code of a Function\<close>




subsection \<open>C1: net stack effect\<close>




subsection \<open>C6: the code of an If\<close>



subsection \<open>C7: the code of a While\<close>



subsection \<open>C9: equality of nodes\<close>

text \<open>
  Claim C9. For a node \<open>x\<close> and any object \<open>other\<close>, \<^verbatim>\<open>x.__eq__(other)\<close> is
  \<^verbatim>\<open>NotImplemented\<close> when \<open>other\<close> is not a node, and otherwise it is true exactly when
  the two nodes are of the same class and all their fields are equal, the attribute
  \<^verbatim>\<open>dont_pop\<close> that the construction of a block may have set on either of them included.
  On nodes the equality is reflexive and symmetric.
\<close>

theorem Node_eq_structural:
  "Node_eq x other =
     (case other of
        NodeObj y \<Rightarrow> Answer (type_of x = type_of y \<and> fields x = fields y)
      | _ \<Rightarrow> NotImplemented)
   \<and> Node_eq x (NodeObj x) = Answer True
   \<and> Node_eq x (NodeObj y) = Node_eq y (NodeObj x)"
proof (intro conjI)
  show "Node_eq x other =
     (case other of
        NodeObj y \<Rightarrow> Answer (type_of x = type_of y \<and> fields x = fields y)
      | _ \<Rightarrow> NotImplemented)"
  proof (cases other)
    case (NodeObj y')
    then show ?thesis using structural[of x y'] by (simp add: Node_eq_def node_eq_iff)
  qed (simp_all add: Node_eq_def)
  show "Node_eq x (NodeObj x) = Answer True" by (simp add: Node_eq_def node_eq_iff)
  show "Node_eq x (NodeObj y) = Node_eq y (NodeObj x)"
    by (auto simp: Node_eq_def node_eq_iff)
qed

theorem Node_eq_structural_witness:
  "Node_eq (StatementO (VariableO ''x'' None) False)
      (NodeObj (StatementO (VariableO ''x'' None) True)) = Answer False
   \<and> Node_eq (ReturnO (ConstantIntO 1 None) (Some True))
      (NodeObj (ReturnO (ConstantIntO 1 None) None)) = Answer False
   \<and> Node_eq (ReturnO (ConstantIntO 1 None) None)
      (NodeObj (ReturnO (ConstantIntO 1 None) (Some True))) = Answer False
   \<and> Node_eq (SendO (SelfO None) ''m'' [ConstantIntO 1 None] (Some True))
      (NodeObj (SendO (SelfO None) ''m'' [ConstantIntO 1 None] (Some True))) = Answer True
   \<and> Node_eq (IfO (SelfO None) (SelfO None) None)
      (NodeObj (WhileO (SelfO None) (SelfO None) None)) = Answer False
   \<and> Node_eq (SelfO None) (IntObj 3) = NotImplemented"
proof -
  have "Node_eq (StatementO (VariableO ''x'' None) False)
      (NodeObj (StatementO (VariableO ''x'' None) True)) = Answer False"
    using Node_eq_structural[of "StatementO (VariableO ''x'' None) False"
        "NodeObj (StatementO (VariableO ''x'' None) True)" "SelfO None", THEN conjunct1]
    by simp
  moreover have "Node_eq (ReturnO (ConstantIntO 1 None) (Some True))
      (NodeObj (ReturnO (ConstantIntO 1 None) None)) = Answer False"
    using Node_eq_structural[of "ReturnO (ConstantIntO 1 None) (Some True)"
        "NodeObj (ReturnO (ConstantIntO 1 None) None)" "SelfO None", THEN conjunct1]
    by simp
  moreover have "Node_eq (ReturnO (ConstantIntO 1 None) None)
      (NodeObj (ReturnO (ConstantIntO 1 None) (Some True))) = Answer False"
    using Node_eq_structural[of "ReturnO (ConstantIntO 1 None) None"
        "NodeObj (ReturnO (ConstantIntO 1 None) (Some True))" "SelfO None", THEN conjunct1]
    by simp
  moreover have "Node_eq (SendO (SelfO None) ''m'' [ConstantIntO 1 None] (Some True))
      (NodeObj (SendO (SelfO None) ''m'' [ConstantIntO 1 None] (Some True))) = Answer True"
    using Node_eq_structural[of "SendO (SelfO None) ''m'' [ConstantIntO 1 None] (Some True)"
        NoneObj "SelfO None", THEN conjunct2, THEN conjunct1] .
  moreover have "Node_eq (IfO (SelfO None) (SelfO None) None)
      (NodeObj (WhileO (SelfO None) (SelfO None) None)) = Answer False"
    using Node_eq_structural[of "IfO (SelfO None) (SelfO None) None"
        "NodeObj (WhileO (SelfO None) (SelfO None) None)" "SelfO None", THEN conjunct1]
    by simp
  moreover have "Node_eq (SelfO None) (IntObj 3) = NotImplemented"
    using Node_eq_structural[of "SelfO None" "IntObj 3" "SelfO None", THEN conjunct1] by simp
  ultimately show ?thesis by (intro conjI)
qed

subsection \<open>C10: constructing a Block\<close>

text \<open>
  Claim C10 as stated fails for the empty list: \<^verbatim>\<open>stmts = [Statement(Variable("nil"))]\<close>
  rebinds the local variable, so the caller's list stays empty, no object the caller
  holds is changed, and \<^verbatim>\<open>dont_pop\<close> is set on the fresh statement of the fresh list
  that the block stores. In the store holding only an empty list at position 0, the
  block gets the list at position 3.
\<close>

theorem Block_init_empty_list_counterexample:
  "Block_init 0 [ListObj []] =
     Inr (4, [ListObj [],
              Instance ''Variable'' [(''name'', StrV ''nil'')],
              Instance ''Statement'' [(''expr'', Ref 1), (''dont_pop'', BoolV True)],
              ListObj [2],
              Instance ''Block'' [(''stmts'', Ref 3)]])"
  by (simp add: Block_init_def setattr_def alloc_def Variable_init_def Statement_init_def)

text \<open>
  Claim C10, amended. Let \<open>stmts\<close> refer to a list whose last element, if there is
  one, refers to an instance. Constructing a block of a non-empty list sets
  \<^verbatim>\<open>dont_pop = True\<close> on the object the last element of the caller's list refers to, a
  change in the caller's store, and the block stores the caller's list itself.
  Constructing a block of an empty list allocates a fresh \<^verbatim>\<open>Variable("nil")\<close>, a fresh
  statement of it with \<^verbatim>\<open>dont_pop = True\<close> and a fresh list holding that statement,
  which the block stores; the caller's list stays empty. In both cases the caller's
  list is not changed, no attribute other than \<^verbatim>\<open>dont_pop\<close> of any existing object is
  changed, no object other than that last element is changed, and an object whose
  \<^verbatim>\<open>dont_pop\<close> is \<^verbatim>\<open>True\<close> keeps it: a statement that was the final statement of one
  block keeps \<^verbatim>\<open>dont_pop = True\<close> when it is reused elsewhere.
\<close>

theorem Block_init_effect:
  assumes "stmts < length h" and "h ! stmts = ListObj elems"
    and "elems \<noteq> [] \<Longrightarrow> last elems < length h \<and> h ! last elems = Instance cls d"
  shows "Block_init stmts h =
           (if elems = [] then
              Inr (length h + 3,
                   h @ [Instance ''Variable'' [(''name'', StrV ''nil'')],
                        Instance ''Statement''
                          [(''expr'', Ref (length h)), (''dont_pop'', BoolV True)],
                        ListObj [length h + 1],
                        Instance ''Block'' [(''stmts'', Ref (length h + 2))]])
            else
              Inr (length h,
                   h[last elems := Instance cls (dict_set ''dont_pop'' (BoolV True) d)]
                     @ [Instance ''Block'' [(''stmts'', Ref stmts)]]))
     \<and> (\<forall>b h'. Block_init stmts h = Inr (b, h') \<longrightarrow>
          h' ! stmts = ListObj elems
        \<and> (elems \<noteq> [] \<longrightarrow> getattr h' (last elems) ''dont_pop'' = Some (BoolV True)
                         \<and> getattr h' b ''stmts'' = Some (Ref stmts))
        \<and> (\<forall>a < length h. \<forall>k. k \<noteq> ''dont_pop'' \<longrightarrow> getattr h' a k = getattr h a k)
        \<and> (\<forall>a < length h. elems = [] \<or> a \<noteq> last elems \<longrightarrow> h' ! a = h ! a)
        \<and> (\<forall>a < length h. getattr h a ''dont_pop'' = Some (BoolV True) \<longrightarrow>
                            getattr h' a ''dont_pop'' = Some (BoolV True)))"
proof (cases "elems = []")
  case True
  have r: "Block_init stmts h =
      Inr (length h + 3,
           h @ [Instance ''Variable'' [(''name'', StrV ''nil'')],
                Instance ''Statement'' [(''expr'', Ref (length h)), (''dont_pop'', BoolV True)],
                ListObj [length h + 1],
                Instance ''Block'' [(''stmts'', Ref (length h + 2))]])"
    using Block_init_empty[OF assms(1)] assms(2) True by simp
  show ?thesis using True assms(1,2) unfolding r
    by (auto simp: nth_append getattr_append)
next
  case False
  let ?s = "last elems"
  from assms(3)[OF False] have s: "?s < length h" "h ! ?s = Instance cls d" by simp_all
  have ne: "?s \<noteq> stmts" using s(2) assms(2) by auto
  have r: "Block_init stmts h =
      Inr (length h,
           h[?s := Instance cls (dict_set ''dont_pop'' (BoolV True) d)]
             @ [Instance ''Block'' [(''stmts'', Ref stmts)]])"
    using Block_init_nonempty[OF assms(1,2) False s] .
  have g: "getattr (h[?s := Instance cls (dict_set ''dont_pop'' (BoolV True) d)]) a k =
      (if a = ?s \<and> k = ''dont_pop'' then Some (BoolV True) else getattr h a k)"
    if "a < length h" for a k
    using that s by (auto simp: getattr_def nth_list_update map_of_dict_set)
  show ?thesis using False assms(1,2) s ne unfolding r
    by (auto simp: nth_append getattr_append g) (simp add: getattr_def nth_append)
qed

text \<open>
  The statement at position 1 is the only element of the list at 3 and the first of
  the list at 4. After a block of each list is made, it has \<^verbatim>\<open>dont_pop = True\<close> although
  it is not the last statement of the second block.
\<close>

theorem Block_init_effect_witness:
  "Block_init 3 example_heap = Inr (5, example_heap_1)
   \<and> Block_init 4 example_heap_1 = Inr (6, example_heap_2)
   \<and> getattr example_heap_2 1 ''dont_pop'' = Some (BoolV True)
   \<and> getattr example_heap_2 2 ''dont_pop'' = Some (BoolV True)
   \<and> example_heap_2 ! 4 = ListObj [1, 2]
   \<and> getattr example_heap_2 1 ''expr'' = getattr example_heap 1 ''expr''"
proof -
  have a: "(3::nat) < length example_heap" "example_heap ! 3 = ListObj [1]"
    "[1::nat] \<noteq> [] \<Longrightarrow> last [1::nat] < length example_heap \<and>
       example_heap ! last [1::nat] =
         Instance ''Statement'' [(''expr'', Ref 0), (''dont_pop'', BoolV False)]"
    by (simp_all add: example_heap_def)
  have b: "(4::nat) < length example_heap_1" "example_heap_1 ! 4 = ListObj [1, 2]"
    "[1::nat, 2] \<noteq> [] \<Longrightarrow> last [1::nat, 2] < length example_heap_1 \<and>
       example_heap_1 ! last [1::nat, 2] =
         Instance ''Statement'' [(''expr'', Ref 0), (''dont_pop'', BoolV False)]"
    by (simp_all add: example_heap_1_def)
  have 1: "Block_init 3 example_heap = Inr (5, example_heap_1)"
    using Block_init_effect[OF a, THEN conjunct1]
    by (simp add: example_heap_def example_heap_1_def)
  have 2: "Block_init 4 example_heap_1 = Inr (6, example_heap_2)"
    using Block_init_effect[OF b, THEN conjunct1]
    by (simp add: example_heap_1_def example_heap_2_def)
  have 3: "getattr example_heap_2 1 ''dont_pop'' = Some (BoolV True)"
    "getattr example_heap_2 2 ''dont_pop'' = Some (BoolV True)"
    "example_heap_2 ! 4 = ListObj [1, 2]"
    "getattr example_heap_2 1 ''expr'' = getattr example_heap 1 ''expr''"
    by (simp_all add: getattr_def example_heap_2_def example_heap_def)
  show ?thesis using 1 2 3 by (intro conjI)
qed

end
